theory Spec2Isabelle
  imports Main "HOL-Library.Word"
begin

unbundle bit_operations_syntax

section \<open>Outcomes of a call\<close>

text \<open>
  Python integers are unbounded, so every integer of the program is an \<open>int\<close>.
  A call either returns a value, raises, or does not return at all (the rejection loop of
  \<open>next_int\<close> and the main loop of the generator are \<open>while\<close> loops with no bound).
  The outcome of a call is therefore an \<open>(error + 'a) option\<close>: \<open>None\<close> is a call that
  never returns, \<open>Some (Inl e)\<close> a raised exception, \<open>Some (Inr v)\<close> a normal return.
\<close>

datatype error = ValueError | IndexError

type_synonym 'a outcome = "(error + 'a) option"

definition ok :: "'a \<Rightarrow> 'a outcome" where
  "ok v = Some (Inr v)"

definition raise :: "error \<Rightarrow> 'a outcome" where
  "raise e = Some (Inl e)"

definition and_then :: "'a outcome \<Rightarrow> ('a \<Rightarrow> 'b outcome) \<Rightarrow> 'b outcome" where
  "and_then m f = (case m of None \<Rightarrow> None | Some (Inl e) \<Rightarrow> Some (Inl e) | Some (Inr v) \<Rightarrow> f v)"

section \<open>random_source.py: LegacyRandomSource\<close>

text \<open>The state of the generator is the field \<open>_seed\<close>.\<close>

type_synonym rng = int

definition MODULUS_MASK :: int where
  "MODULUS_MASK = push_bit 48 1 - 1"

definition MULTIPLIER :: int where
  "MULTIPLIER = 25214903917"

definition INCREMENT :: int where
  "INCREMENT = 11"

definition set_seed :: "int \<Rightarrow> rng" where
  "set_seed seed = (seed XOR MULTIPLIER) AND MODULUS_MASK"

text \<open>
  \<open>next(bits)\<close>; the program calls it with \<open>bits\<close> in \<open>{31, 32}\<close> (and with 1, 24,
  26 and 27 in \<open>next_boolean\<close>, \<open>next_float\<close> and \<open>next_double\<close>), so the shift count
  \<open>48 - bits\<close> is a natural number.
\<close>

definition next_bits :: "nat \<Rightarrow> rng \<Rightarrow> int \<times> rng" where
  "next_bits bits s =
     (let s' = (s * MULTIPLIER + INCREMENT) AND MODULUS_MASK
      in (drop_bit (48 - bits) s', s'))"

definition to_signed_int :: "int \<Rightarrow> int" where
  "to_signed_int v = (if v \<ge> push_bit 31 1 then v - push_bit 32 1 else v)"

definition to_signed_long :: "int \<Rightarrow> int" where
  "to_signed_long v = (if v \<ge> push_bit 63 1 then v - push_bit 64 1 else v)"

text \<open>The \<open>while True\<close> loop of \<open>next_int\<close>, on Python's unbounded integers.\<close>

partial_function (option) next_int_loop :: "int \<Rightarrow> rng \<Rightarrow> (int \<times> rng) option" where
  "next_int_loop bound s =
     (case next_bits 31 s of (bits, s') \<Rightarrow>
        (let val = bits mod bound
         in if bits - val + (bound - 1) \<ge> 0 then Some (val, s')
            else next_int_loop bound s'))"

text \<open>\<open>next_int(bound)\<close> with a bound given (\<open>bound is None\<close> is \<open>next_int_unbounded\<close>).\<close>

definition next_int :: "int \<Rightarrow> rng \<Rightarrow> (int \<times> rng) outcome" where
  "next_int bound s =
     (if bound \<le> 0 then raise ValueError
      else if (bound AND (bound - 1)) = 0 then
        (case next_bits 31 s of (bits, s') \<Rightarrow> ok (drop_bit 31 (bound * bits), s'))
      else map_option Inr (next_int_loop bound s))"

definition next_int_unbounded :: "rng \<Rightarrow> int \<times> rng" where
  "next_int_unbounded s = (case next_bits 32 s of (v, s') \<Rightarrow> (to_signed_int v, s'))"

definition next_long :: "rng \<Rightarrow> int \<times> rng" where
  "next_long s =
     (case next_bits 32 s of (high, s1) \<Rightarrow>
      case next_bits 32 s1 of (low, s2) \<Rightarrow>
        (let low_signed = to_signed_int low;
             result = push_bit 32 high + low_signed
         in (to_signed_long (result AND (push_bit 64 1 - 1)), s2)))"

section \<open>random_source.py: WorldgenRandom\<close>

text \<open>
  Both seed derivations start or end with \<open>set_seed\<close>, which overwrites \<open>_seed\<close>, so the
  state they leave does not depend on the state they find: they are functions of their
  arguments.
\<close>

definition set_large_feature_seed :: "int \<Rightarrow> int \<Rightarrow> int \<Rightarrow> rng" where
  "set_large_feature_seed world_seed x z =
     (case next_long (set_seed world_seed) of (m, s1) \<Rightarrow>
      case next_long s1 of (n, s2) \<Rightarrow>
        (let xm = to_signed_long ((x * m) AND (push_bit 64 1 - 1));
             zn = to_signed_long ((z * n) AND (push_bit 64 1 - 1));
             seed = xm XOR zn XOR world_seed;
             seed' = to_signed_long (seed AND (push_bit 64 1 - 1))
         in set_seed seed'))"

definition set_large_feature_with_salt :: "int \<Rightarrow> int \<Rightarrow> int \<Rightarrow> int \<Rightarrow> rng" where
  "set_large_feature_with_salt world_seed x z salt =
     (let seed = x * 341873128712 + z * 132897987541 + world_seed + salt;
          seed' = to_signed_long (seed AND (push_bit 64 1 - 1))
      in set_seed seed')"

definition get_random_horizontal_direction :: "rng \<Rightarrow> (int \<times> rng) outcome" where
  "get_random_horizontal_direction s = next_int 4 s"

section \<open>fortress_generator.py: data\<close>

datatype Direction = NORTH | EAST | SOUTH | WEST

text \<open>\<open>Direction(n)\<close>: the enum member of value \<open>n\<close>, \<open>ValueError\<close> when there is none.\<close>

definition Direction_of :: "int \<Rightarrow> Direction outcome" where
  "Direction_of n =
     (if n = 0 then ok NORTH else if n = 1 then ok EAST
      else if n = 2 then ok SOUTH else if n = 3 then ok WEST
      else raise ValueError)"

datatype PieceType =
    BRIDGE_STRAIGHT | BRIDGE_CROSSING | ROOM_CROSSING | STAIRS_ROOM | MONSTER_THRONE
  | CASTLE_ENTRANCE | BRIDGE_END_FILLER
  | CASTLE_SMALL_CORRIDOR | CASTLE_SMALL_CORRIDOR_CROSSING
  | CASTLE_SMALL_CORRIDOR_RIGHT_TURN | CASTLE_SMALL_CORRIDOR_LEFT_TURN
  | CASTLE_CORRIDOR_STAIRS | CASTLE_CORRIDOR_T_BALCONY | CASTLE_STALK_ROOM
  | START_PIECE

record BoundingBox =
  min_x :: int
  min_y :: int
  min_z :: int
  max_x :: int
  max_y :: int
  max_z :: int

definition intersects :: "BoundingBox \<Rightarrow> BoundingBox \<Rightarrow> bool" where
  "intersects self other \<longleftrightarrow>
     max_x self \<ge> min_x other \<and> min_x self \<le> max_x other \<and>
     max_z self \<ge> min_z other \<and> min_z self \<le> max_z other \<and>
     max_y self \<ge> min_y other \<and> min_y self \<le> max_y other"

definition orient_box ::
  "int \<Rightarrow> int \<Rightarrow> int \<Rightarrow> int \<Rightarrow> int \<Rightarrow> int \<Rightarrow> int \<Rightarrow> int \<Rightarrow> int \<Rightarrow> Direction \<Rightarrow> BoundingBox" where
  "orient_box x y z offset_x offset_y offset_z width height depth direction =
     (case direction of
        NORTH \<Rightarrow> \<lparr>min_x = x + offset_x, min_y = y + offset_y, min_z = z - depth + 1 + offset_z,
                  max_x = x + width - 1 + offset_x, max_y = y + height - 1 + offset_y,
                  max_z = z + offset_z\<rparr>
      | SOUTH \<Rightarrow> \<lparr>min_x = x + offset_x, min_y = y + offset_y, min_z = z + offset_z,
                  max_x = x + width - 1 + offset_x, max_y = y + height - 1 + offset_y,
                  max_z = z + depth - 1 + offset_z\<rparr>
      | WEST \<Rightarrow> \<lparr>min_x = x - depth + 1 + offset_z, min_y = y + offset_y, min_z = z + offset_x,
                 max_x = x + offset_z, max_y = y + height - 1 + offset_y,
                 max_z = z + width - 1 + offset_x\<rparr>
      | EAST \<Rightarrow> \<lparr>min_x = x + offset_z, min_y = y + offset_y, min_z = z + offset_x,
                 max_x = x + depth - 1 + offset_z, max_y = y + height - 1 + offset_y,
                 max_z = z + width - 1 + offset_x\<rparr>)"

definition make_bounding_box ::
  "int \<Rightarrow> int \<Rightarrow> int \<Rightarrow> Direction \<Rightarrow> int \<Rightarrow> int \<Rightarrow> int \<Rightarrow> BoundingBox" where
  "make_bounding_box x y z direction width height depth =
     (if direction = NORTH \<or> direction = SOUTH then
        \<lparr>min_x = x, min_y = y, min_z = z,
         max_x = x + width - 1, max_y = y + height - 1, max_z = z + depth - 1\<rparr>
      else
        \<lparr>min_x = x, min_y = y, min_z = z,
         max_x = x + depth - 1, max_y = y + height - 1, max_z = z + width - 1\<rparr>)"

text \<open>
  The field \<open>piece_type\<close> of \<open>PieceWeight\<close> is \<open>pw_piece_type\<close> here, since
  \<open>StructurePiece\<close> has a field of the same name.
\<close>

record PieceWeight =
  pw_piece_type :: PieceType
  weight :: int
  max_place_count :: int
  allow_in_row :: bool
  place_count :: int

definition do_place :: "PieceWeight \<Rightarrow> int \<Rightarrow> bool" where
  "do_place pw depth \<longleftrightarrow> max_place_count pw = 0 \<or> place_count pw < max_place_count pw"

definition is_valid :: "PieceWeight \<Rightarrow> bool" where
  "is_valid pw \<longleftrightarrow> max_place_count pw = 0 \<or> place_count pw < max_place_count pw"

record StructurePiece =
  piece_type :: PieceType
  bounding_box :: BoundingBox
  direction :: Direction
  gen_depth :: int

definition MAX_DEPTH :: int where
  "MAX_DEPTH = 30"

definition LOWEST_Y_POSITION :: int where
  "LOWEST_Y_POSITION = 10"

definition MAGIC_START_Y :: int where
  "MAGIC_START_Y = 64"

definition mk_weight :: "PieceType \<Rightarrow> int \<Rightarrow> int \<Rightarrow> bool \<Rightarrow> PieceWeight" where
  "mk_weight t w m a =
     \<lparr>pw_piece_type = t, weight = w, max_place_count = m, allow_in_row = a, place_count = 0\<rparr>"

definition BRIDGE_PIECE_WEIGHTS :: "PieceWeight list" where
  "BRIDGE_PIECE_WEIGHTS =
     [mk_weight BRIDGE_STRAIGHT 30 0 True,
      mk_weight BRIDGE_CROSSING 10 4 False,
      mk_weight ROOM_CROSSING 10 4 False,
      mk_weight STAIRS_ROOM 10 3 False,
      mk_weight MONSTER_THRONE 5 2 False,
      mk_weight CASTLE_ENTRANCE 5 1 False]"

definition CASTLE_PIECE_WEIGHTS :: "PieceWeight list" where
  "CASTLE_PIECE_WEIGHTS =
     [mk_weight CASTLE_SMALL_CORRIDOR 25 0 True,
      mk_weight CASTLE_SMALL_CORRIDOR_CROSSING 15 5 False,
      mk_weight CASTLE_SMALL_CORRIDOR_RIGHT_TURN 5 10 False,
      mk_weight CASTLE_SMALL_CORRIDOR_LEFT_TURN 5 10 False,
      mk_weight CASTLE_CORRIDOR_STAIRS 10 3 True,
      mk_weight CASTLE_CORRIDOR_T_BALCONY 7 2 False,
      mk_weight CASTLE_STALK_ROOM 5 2 False]"

text \<open>The two dictionaries, read with \<open>.get\<close>: a key that is absent gives \<open>None\<close>.\<close>

fun PIECE_DIMENSIONS :: "PieceType \<Rightarrow> (int \<times> int \<times> int) option" where
  "PIECE_DIMENSIONS BRIDGE_STRAIGHT = Some (5, 10, 19)"
| "PIECE_DIMENSIONS BRIDGE_CROSSING = Some (19, 10, 19)"
| "PIECE_DIMENSIONS ROOM_CROSSING = Some (7, 9, 7)"
| "PIECE_DIMENSIONS STAIRS_ROOM = Some (7, 11, 7)"
| "PIECE_DIMENSIONS MONSTER_THRONE = Some (7, 8, 9)"
| "PIECE_DIMENSIONS CASTLE_ENTRANCE = Some (13, 14, 13)"
| "PIECE_DIMENSIONS BRIDGE_END_FILLER = Some (5, 10, 8)"
| "PIECE_DIMENSIONS CASTLE_SMALL_CORRIDOR = Some (5, 7, 5)"
| "PIECE_DIMENSIONS CASTLE_SMALL_CORRIDOR_CROSSING = Some (5, 7, 5)"
| "PIECE_DIMENSIONS CASTLE_SMALL_CORRIDOR_RIGHT_TURN = Some (5, 7, 5)"
| "PIECE_DIMENSIONS CASTLE_SMALL_CORRIDOR_LEFT_TURN = Some (5, 7, 5)"
| "PIECE_DIMENSIONS CASTLE_CORRIDOR_STAIRS = Some (5, 14, 10)"
| "PIECE_DIMENSIONS CASTLE_CORRIDOR_T_BALCONY = Some (9, 7, 9)"
| "PIECE_DIMENSIONS CASTLE_STALK_ROOM = Some (13, 14, 13)"
| "PIECE_DIMENSIONS START_PIECE = Some (19, 10, 19)"

fun PIECE_OFFSETS :: "PieceType \<Rightarrow> (int \<times> int \<times> int) option" where
  "PIECE_OFFSETS BRIDGE_STRAIGHT = Some (-1, -3, 0)"
| "PIECE_OFFSETS BRIDGE_CROSSING = Some (-8, -3, 0)"
| "PIECE_OFFSETS ROOM_CROSSING = Some (-2, 0, 0)"
| "PIECE_OFFSETS STAIRS_ROOM = Some (-2, 0, 0)"
| "PIECE_OFFSETS MONSTER_THRONE = Some (-2, 0, 0)"
| "PIECE_OFFSETS CASTLE_ENTRANCE = Some (-5, -3, 0)"
| "PIECE_OFFSETS BRIDGE_END_FILLER = Some (-1, -3, 0)"
| "PIECE_OFFSETS CASTLE_SMALL_CORRIDOR = Some (-1, 0, 0)"
| "PIECE_OFFSETS CASTLE_SMALL_CORRIDOR_CROSSING = Some (-1, 0, 0)"
| "PIECE_OFFSETS CASTLE_SMALL_CORRIDOR_RIGHT_TURN = Some (-1, 0, 0)"
| "PIECE_OFFSETS CASTLE_SMALL_CORRIDOR_LEFT_TURN = Some (-1, 0, 0)"
| "PIECE_OFFSETS CASTLE_CORRIDOR_STAIRS = Some (-1, -7, 0)"
| "PIECE_OFFSETS CASTLE_CORRIDOR_T_BALCONY = Some (-3, 0, 0)"
| "PIECE_OFFSETS CASTLE_STALK_ROOM = Some (-5, -3, 0)"
| "PIECE_OFFSETS START_PIECE = Some (-8, -3, 0)"

section \<open>fortress_generator.py: FortressGenerator\<close>

text \<open>
  The mutable fields of a \<open>FortressGenerator\<close>. \<open>world_seed\<close>, \<open>chunk_x\<close> and \<open>chunk_z\<close>
  are never assigned after \<open>__init__\<close> and are arguments of \<open>generate\<close>. The field
  \<open>random\<close> is \<open>random_src\<close> here.

  \<open>previous_piece\<close> refers to an entry of one of the weight lists (or to one that was
  removed from its list). An entry is mutated in one place only (\<open>place_count += 1\<close>), and
  \<open>previous_piece\<close> is assigned that entry right after, so the value stored here and the
  entry it refers to agree at every moment; \<open>==\<close> on the dataclass compares the fields.
\<close>

record gstate =
  random_src :: rng
  pieces :: "StructurePiece list"
  pending_children :: "StructurePiece list"
  bridge_weights :: "PieceWeight list"
  castle_weights :: "PieceWeight list"
  previous_piece :: "PieceWeight option"
  start_bounding_box :: "BoundingBox option"

definition init_state :: gstate where
  "init_state =
     \<lparr>random_src = set_seed 0, pieces = [], pending_children = [],
      bridge_weights =
        map (\<lambda>pw. mk_weight (pw_piece_type pw) (weight pw) (max_place_count pw) (allow_in_row pw))
          BRIDGE_PIECE_WEIGHTS,
      castle_weights =
        map (\<lambda>pw. mk_weight (pw_piece_type pw) (weight pw) (max_place_count pw) (allow_in_row pw))
          CASTLE_PIECE_WEIGHTS,
      previous_piece = None, start_bounding_box = None\<rparr>"

definition is_ok_box :: "BoundingBox \<Rightarrow> bool" where
  "is_ok_box box \<longleftrightarrow> min_y box > LOWEST_Y_POSITION"

fun find_collision_in :: "StructurePiece list \<Rightarrow> BoundingBox \<Rightarrow> bool" where
  "find_collision_in [] box = False"
| "find_collision_in (piece # rest) box =
     (if intersects (bounding_box piece) box then True else find_collision_in rest box)"

definition find_collision :: "BoundingBox \<Rightarrow> gstate \<Rightarrow> bool" where
  "find_collision box st = find_collision_in (pieces st) box"

definition create_piece ::
  "PieceType \<Rightarrow> int \<Rightarrow> int \<Rightarrow> int \<Rightarrow> Direction \<Rightarrow> int \<Rightarrow> gstate \<Rightarrow> StructurePiece option" where
  "create_piece pt x y z dir depth st =
     (case PIECE_DIMENSIONS pt of None \<Rightarrow> None | Some (w, h, d) \<Rightarrow>
      case PIECE_OFFSETS pt of None \<Rightarrow> None | Some (ox, oy, oz) \<Rightarrow>
        (let box = orient_box x y z ox oy oz w h d dir
         in if \<not> is_ok_box box then None
            else if find_collision box st then None
            else Some \<lparr>piece_type = pt, bounding_box = box, direction = dir, gen_depth = depth\<rparr>))"

definition create_end_filler ::
  "int \<Rightarrow> int \<Rightarrow> int \<Rightarrow> Direction \<Rightarrow> int \<Rightarrow> gstate \<Rightarrow> StructurePiece option" where
  "create_end_filler x y z dir depth st =
     (let box = orient_box x y z (-1) (-3) 0 5 10 8 dir
      in if \<not> is_ok_box box then None
         else if find_collision box st then None
         else Some \<lparr>piece_type = BRIDGE_END_FILLER, bounding_box = box, direction = dir,
                     gen_depth = depth\<rparr>)"

fun update_piece_weight_loop :: "PieceWeight list \<Rightarrow> bool \<Rightarrow> int \<Rightarrow> bool \<times> int" where
  "update_piece_weight_loop [] has_valid tot = (has_valid, tot)"
| "update_piece_weight_loop (pw # rest) has_valid tot =
     update_piece_weight_loop rest
       (if max_place_count pw > 0 \<and> place_count pw < max_place_count pw then True else has_valid)
       (tot + weight pw)"

definition update_piece_weight :: "PieceWeight list \<Rightarrow> int" where
  "update_piece_weight weights =
     (case update_piece_weight_loop weights False 0 of
        (has_valid, tot) \<Rightarrow> if has_valid then tot else -1)"

text \<open>
  \<open>_generate_piece\<close> receives one of the two weight lists by reference and mutates it in
  place; here the flag \<open>is_castle\<close> says which list it is.
\<close>

definition get_weights :: "bool \<Rightarrow> gstate \<Rightarrow> PieceWeight list" where
  "get_weights is_castle st = (if is_castle then castle_weights st else bridge_weights st)"

definition set_weights :: "bool \<Rightarrow> PieceWeight list \<Rightarrow> gstate \<Rightarrow> gstate" where
  "set_weights is_castle ws st =
     (if is_castle then st\<lparr>castle_weights := ws\<rparr> else st\<lparr>bridge_weights := ws\<rparr>)"

text \<open>
  The \<open>for pw in weights\<close> loop of one attempt. \<open>seen\<close> are the entries already passed.
  \<open>Some (piece, weights', pw')\<close> is the \<open>return piece\<close>, with the list and the entry as
  mutated; \<open>None\<close> is a \<open>break\<close>, or the end of the list.
\<close>

fun scan_weights ::
  "PieceWeight list \<Rightarrow> PieceWeight list \<Rightarrow> int \<Rightarrow> int \<Rightarrow> int \<Rightarrow> int \<Rightarrow> Direction \<Rightarrow> int \<Rightarrow>
   gstate \<Rightarrow> (StructurePiece \<times> PieceWeight list \<times> PieceWeight) option" where
  "scan_weights seen [] target x y z dir depth st = None"
| "scan_weights seen (pw # rest) target x y z dir depth st =
     (let target' = target - weight pw
      in if target' < 0 then
           (if \<not> do_place pw depth then None
            else if Some pw = previous_piece st \<and> \<not> allow_in_row pw then None
            else (case create_piece (pw_piece_type pw) x y z dir depth st of
                    Some piece \<Rightarrow>
                      (let pw' = pw\<lparr>place_count := place_count pw + 1\<rparr>;
                           weights' = seen @ pw' # rest
                       in Some (piece,
                                if \<not> is_valid pw' then remove1 pw' weights' else weights',
                                pw'))
                  | None \<Rightarrow> None))
         else scan_weights (seen @ [pw]) rest target' x y z dir depth st)"

function attempt_loop ::
  "bool \<Rightarrow> int \<Rightarrow> bool \<Rightarrow> int \<Rightarrow> int \<Rightarrow> int \<Rightarrow> Direction \<Rightarrow> int \<Rightarrow> nat \<Rightarrow> gstate \<Rightarrow>
   (StructurePiece option \<times> gstate) outcome" where
  "attempt_loop is_castle total_weight can_place x y z dir depth attempts st =
     (if attempts < 5 \<and> can_place then
        (case next_int total_weight (random_src st) of
           None \<Rightarrow> None
         | Some (Inl e) \<Rightarrow> Some (Inl e)
         | Some (Inr (target, r)) \<Rightarrow>
             (let st1 = st\<lparr>random_src := r\<rparr>
              in case scan_weights [] (get_weights is_castle st1) target x y z dir depth st1 of
                   Some (piece, weights', pw') \<Rightarrow>
                     ok (Some piece,
                         set_weights is_castle weights' (st1\<lparr>previous_piece := Some pw'\<rparr>))
                 | None \<Rightarrow>
                     attempt_loop is_castle total_weight can_place x y z dir depth
                       (attempts + 1) st1))
      else ok (create_end_filler x y z dir depth st, st))"
  by pat_completeness auto
termination
  by (relation "measure (\<lambda>(is_castle, total_weight, can_place, x, y, z, dir, depth, attempts, st).
        5 - attempts)") auto

definition generate_piece ::
  "bool \<Rightarrow> int \<Rightarrow> int \<Rightarrow> int \<Rightarrow> Direction \<Rightarrow> int \<Rightarrow> gstate \<Rightarrow>
   (StructurePiece option \<times> gstate) outcome" where
  "generate_piece is_castle x y z dir depth st =
     (let total_weight = update_piece_weight (get_weights is_castle st);
          can_place = (total_weight > 0 \<and> depth \<le> MAX_DEPTH)
      in attempt_loop is_castle total_weight can_place x y z dir depth 0 st)"

definition generate_and_add_piece ::
  "int \<Rightarrow> int \<Rightarrow> int \<Rightarrow> Direction \<Rightarrow> int \<Rightarrow> bool \<Rightarrow> gstate \<Rightarrow>
   (StructurePiece option \<times> gstate) outcome" where
  "generate_and_add_piece x y z dir depth is_castle st =
     (if (case start_bounding_box st of
            Some anchor \<Rightarrow> \<bar>x - min_x anchor\<bar> > 112 \<or> \<bar>z - min_z anchor\<bar> > 112
          | None \<Rightarrow> False)
      then ok (None, st)
      else and_then (generate_piece is_castle x y z dir (depth + 1) st) (\<lambda>(piece, st1).
             case piece of
               Some p \<Rightarrow>
                 ok (Some p, st1\<lparr>pieces := pieces st1 @ [p],
                                   pending_children := pending_children st1 @ [p]\<rparr>)
             | None \<Rightarrow> ok (None, st1)))"

text \<open>The three child requests; each returns the state after \<open>_generate_and_add_piece\<close>.\<close>

definition generate_child_forward ::
  "StructurePiece \<Rightarrow> int \<Rightarrow> int \<Rightarrow> bool \<Rightarrow> gstate \<Rightarrow> gstate outcome" where
  "generate_child_forward piece offset_i offset_j is_castle st =
     (let dir = direction piece; box = bounding_box piece;
          (x, y, z) =
            (case dir of
               NORTH \<Rightarrow> (min_x box + offset_i, min_y box + offset_j, min_z box - 1)
             | SOUTH \<Rightarrow> (min_x box + offset_i, min_y box + offset_j, max_z box + 1)
             | WEST \<Rightarrow> (min_x box - 1, min_y box + offset_j, min_z box + offset_i)
             | EAST \<Rightarrow> (max_x box + 1, min_y box + offset_j, min_z box + offset_i))
      in and_then (generate_and_add_piece x y z dir (gen_depth piece) is_castle st)
           (\<lambda>(p, st'). ok st'))"

definition generate_child_left ::
  "StructurePiece \<Rightarrow> int \<Rightarrow> int \<Rightarrow> bool \<Rightarrow> gstate \<Rightarrow> gstate outcome" where
  "generate_child_left piece offset_i offset_j is_castle st =
     (let dir = direction piece; box = bounding_box piece;
          (x, y, z, new_direction) =
            (case dir of
               NORTH \<Rightarrow> (min_x box - 1, min_y box + offset_i, min_z box + offset_j, WEST)
             | SOUTH \<Rightarrow> (min_x box - 1, min_y box + offset_i, min_z box + offset_j, WEST)
             | WEST \<Rightarrow> (min_x box + offset_j, min_y box + offset_i, min_z box - 1, NORTH)
             | EAST \<Rightarrow> (min_x box + offset_j, min_y box + offset_i, min_z box - 1, NORTH))
      in and_then (generate_and_add_piece x y z new_direction (gen_depth piece) is_castle st)
           (\<lambda>(p, st'). ok st'))"

definition generate_child_right ::
  "StructurePiece \<Rightarrow> int \<Rightarrow> int \<Rightarrow> bool \<Rightarrow> gstate \<Rightarrow> gstate outcome" where
  "generate_child_right piece offset_i offset_j is_castle st =
     (let dir = direction piece; box = bounding_box piece;
          (x, y, z, new_direction) =
            (case dir of
               NORTH \<Rightarrow> (max_x box + 1, min_y box + offset_i, min_z box + offset_j, EAST)
             | SOUTH \<Rightarrow> (max_x box + 1, min_y box + offset_i, min_z box + offset_j, EAST)
             | WEST \<Rightarrow> (min_x box + offset_j, min_y box + offset_i, max_z box + 1, SOUTH)
             | EAST \<Rightarrow> (min_x box + offset_j, min_y box + offset_i, max_z box + 1, SOUTH))
      in and_then (generate_and_add_piece x y z new_direction (gen_depth piece) is_castle st)
           (\<lambda>(p, st'). ok st'))"

definition add_children_for_crossing :: "StructurePiece \<Rightarrow> gstate \<Rightarrow> gstate outcome" where
  "add_children_for_crossing piece st =
     and_then (generate_child_forward piece 8 3 False st) (\<lambda>st1.
     and_then (generate_child_left piece 3 8 False st1) (\<lambda>st2.
     generate_child_right piece 3 8 False st2))"

definition add_children_for_bridge_straight :: "StructurePiece \<Rightarrow> gstate \<Rightarrow> gstate outcome" where
  "add_children_for_bridge_straight piece st = generate_child_forward piece 1 3 False st"

definition add_children_for_room_crossing :: "StructurePiece \<Rightarrow> gstate \<Rightarrow> gstate outcome" where
  "add_children_for_room_crossing piece st =
     and_then (generate_child_forward piece 2 0 False st) (\<lambda>st1.
     and_then (generate_child_left piece 0 2 False st1) (\<lambda>st2.
     generate_child_right piece 0 2 False st2))"

definition add_children_for_stairs_room :: "StructurePiece \<Rightarrow> gstate \<Rightarrow> gstate outcome" where
  "add_children_for_stairs_room piece st = generate_child_right piece 6 2 False st"

definition add_children_for_castle_entrance :: "StructurePiece \<Rightarrow> gstate \<Rightarrow> gstate outcome" where
  "add_children_for_castle_entrance piece st = generate_child_forward piece 5 3 True st"

definition add_children_for_castle_small_corridor ::
  "StructurePiece \<Rightarrow> gstate \<Rightarrow> gstate outcome" where
  "add_children_for_castle_small_corridor piece st = generate_child_forward piece 1 0 True st"

definition add_children_for_castle_small_corridor_crossing ::
  "StructurePiece \<Rightarrow> gstate \<Rightarrow> gstate outcome" where
  "add_children_for_castle_small_corridor_crossing piece st =
     and_then (generate_child_forward piece 1 0 True st) (\<lambda>st1.
     and_then (generate_child_left piece 0 1 True st1) (\<lambda>st2.
     generate_child_right piece 0 1 True st2))"

definition add_children_for_castle_right_turn :: "StructurePiece \<Rightarrow> gstate \<Rightarrow> gstate outcome" where
  "add_children_for_castle_right_turn piece st = generate_child_right piece 0 1 True st"

definition add_children_for_castle_left_turn :: "StructurePiece \<Rightarrow> gstate \<Rightarrow> gstate outcome" where
  "add_children_for_castle_left_turn piece st = generate_child_left piece 0 1 True st"

definition add_children_for_castle_corridor_stairs ::
  "StructurePiece \<Rightarrow> gstate \<Rightarrow> gstate outcome" where
  "add_children_for_castle_corridor_stairs piece st = generate_child_forward piece 1 0 True st"

definition add_children_for_castle_t_balcony :: "StructurePiece \<Rightarrow> gstate \<Rightarrow> gstate outcome" where
  "add_children_for_castle_t_balcony piece st =
     (let dir = direction piece;
          i = (if dir = WEST \<or> dir = NORTH then 5 else 1)
      in and_then (next_int 8 (random_src st)) (\<lambda>(a, r1).
         and_then (generate_child_left piece 0 i (a > 0) (st\<lparr>random_src := r1\<rparr>)) (\<lambda>st1.
         and_then (next_int 8 (random_src st1)) (\<lambda>(b, r2).
         generate_child_right piece 0 i (b > 0) (st1\<lparr>random_src := r2\<rparr>)))))"

definition add_children_for_castle_stalk_room :: "StructurePiece \<Rightarrow> gstate \<Rightarrow> gstate outcome" where
  "add_children_for_castle_stalk_room piece st =
     and_then (generate_child_forward piece 5 3 True st) (\<lambda>st1.
     generate_child_forward piece 5 11 True st1)"

text \<open>
  \<open>_add_children\<close>: the \<open>if\<close>/\<open>elif\<close> chain has no branch for \<open>MonsterThrone\<close> and
  \<open>BridgeEndFiller\<close>, for which it does nothing.
\<close>

definition add_children :: "StructurePiece \<Rightarrow> gstate \<Rightarrow> gstate outcome" where
  "add_children piece st =
     (let t = piece_type piece
      in if t = START_PIECE \<or> t = BRIDGE_CROSSING then add_children_for_crossing piece st
         else if t = BRIDGE_STRAIGHT then add_children_for_bridge_straight piece st
         else if t = ROOM_CROSSING then add_children_for_room_crossing piece st
         else if t = STAIRS_ROOM then add_children_for_stairs_room piece st
         else if t = CASTLE_ENTRANCE then add_children_for_castle_entrance piece st
         else if t = CASTLE_SMALL_CORRIDOR then add_children_for_castle_small_corridor piece st
         else if t = CASTLE_SMALL_CORRIDOR_CROSSING then
           add_children_for_castle_small_corridor_crossing piece st
         else if t = CASTLE_SMALL_CORRIDOR_RIGHT_TURN then
           add_children_for_castle_right_turn piece st
         else if t = CASTLE_SMALL_CORRIDOR_LEFT_TURN then
           add_children_for_castle_left_turn piece st
         else if t = CASTLE_CORRIDOR_STAIRS then add_children_for_castle_corridor_stairs piece st
         else if t = CASTLE_CORRIDOR_T_BALCONY then add_children_for_castle_t_balcony piece st
         else if t = CASTLE_STALK_ROOM then add_children_for_castle_stalk_room piece st
         else ok st)"

text \<open>
  \<open>list.pop(i)\<close>: a negative index counts from the end, an index out of range raises
  \<open>IndexError\<close>.
\<close>

definition pop_at :: "'a list \<Rightarrow> int \<Rightarrow> ('a \<times> 'a list) outcome" where
  "pop_at xs i =
     (let n = int (length xs); j = (if i < 0 then i + n else i)
      in if 0 \<le> j \<and> j < n then ok (xs ! nat j, take (nat j) xs @ drop (Suc (nat j)) xs)
         else raise IndexError)"

text \<open>The \<open>while self.pending_children\<close> loop of \<open>generate\<close>.\<close>

partial_function (option) main_loop :: "gstate \<Rightarrow> (error + gstate) option" where
  "main_loop st =
     (if pending_children st = [] then Some (Inr st)
      else
        (case next_int (int (length (pending_children st))) (random_src st) of
           None \<Rightarrow> None
         | Some (Inl e) \<Rightarrow> Some (Inl e)
         | Some (Inr (idx, r)) \<Rightarrow>
             (case pop_at (pending_children st) idx of
                None \<Rightarrow> None
              | Some (Inl e) \<Rightarrow> Some (Inl e)
              | Some (Inr (piece, rest)) \<Rightarrow>
                  (case add_children piece (st\<lparr>random_src := r, pending_children := rest\<rparr>) of
                     None \<Rightarrow> None
                   | Some (Inl e) \<Rightarrow> Some (Inl e)
                   | Some (Inr st') \<Rightarrow> main_loop st'))))"

definition generate :: "int \<Rightarrow> int \<Rightarrow> int \<Rightarrow> StructurePiece list outcome" where
  "generate world_seed chunk_x chunk_z =
     (let st0 = init_state\<lparr>random_src := set_large_feature_seed world_seed chunk_x chunk_z\<rparr>;
          start_x = chunk_x * 16 + 2;
          start_z = chunk_z * 16 + 2
      in and_then (get_random_horizontal_direction (random_src st0)) (\<lambda>(n, r).
         and_then (Direction_of n) (\<lambda>start_direction.
           (let start_box = make_bounding_box start_x MAGIC_START_Y start_z start_direction 19 10 19;
                start_piece = \<lparr>piece_type = START_PIECE, bounding_box = start_box,
                                direction = start_direction, gen_depth = 0\<rparr>;
                st1 = st0\<lparr>random_src := r, pieces := pieces st0 @ [start_piece],
                           start_bounding_box := Some start_box\<rparr>
            in and_then (add_children_for_crossing start_piece st1) (\<lambda>st2.
               and_then (main_loop st2) (\<lambda>st3. ok (pieces st3)))))))"

section \<open>fortress_locator.py: FortressLocator\<close>

definition SPACING :: int where
  "SPACING = 27"

definition SEPARATION :: int where
  "SEPARATION = 4"

definition SALT :: int where
  "SALT = 30084232"

definition FORTRESS_WEIGHT :: int where
  "FORTRESS_WEIGHT = 2"

definition BASTION_WEIGHT :: int where
  "BASTION_WEIGHT = 3"

definition TOTAL_WEIGHT :: int where
  "TOTAL_WEIGHT = FORTRESS_WEIGHT + BASTION_WEIGHT"

text \<open>
  \<open>math.floor(chunk / self.SPACING)\<close> divides as floating point and rounds down. For
  chunk coordinates in the signed 32-bit range the double differs from the quotient by
  less than \<open>2 ^ -26\<close>, and a quotient that is not an integer is at least \<open>1 / 27\<close> from
  the next one, so the result is the floor division of the integers: \<open>region_of\<close>.
\<close>

definition region_of :: "int \<Rightarrow> int" where
  "region_of chunk = chunk div SPACING"

text \<open>The classifier draws from a generator of its own.\<close>

definition is_fortress_at_chunk :: "int \<Rightarrow> int \<Rightarrow> int \<Rightarrow> bool outcome" where
  "is_fortress_at_chunk world_seed chunk_x chunk_z =
     and_then (next_int TOTAL_WEIGHT (set_large_feature_seed world_seed chunk_x chunk_z))
       (\<lambda>(selected, r). ok (selected < FORTRESS_WEIGHT))"

text \<open>
  The next two functions reseed \<open>self.random\<close> before they draw, so the state it had is
  not an input; the state it is left in is returned with the result.
\<close>

definition get_potential_fortress_chunk ::
  "int \<Rightarrow> int \<Rightarrow> int \<Rightarrow> ((int \<times> int) \<times> rng) outcome" where
  "get_potential_fortress_chunk world_seed chunk_x chunk_z =
     (let region_x = region_of chunk_x;
          region_z = region_of chunk_z;
          r0 = set_large_feature_with_salt world_seed region_x region_z SALT;
          offset_range = SPACING - SEPARATION
      in and_then (next_int offset_range r0) (\<lambda>(offset_x, r1).
         and_then (next_int offset_range r1) (\<lambda>(offset_z, r2).
           ok ((region_x * SPACING + offset_x, region_z * SPACING + offset_z), r2))))"

definition is_fortress_chunk :: "int \<Rightarrow> int \<Rightarrow> int \<Rightarrow> (bool \<times> rng) outcome" where
  "is_fortress_chunk world_seed chunk_x chunk_z =
     and_then (get_potential_fortress_chunk world_seed chunk_x chunk_z)
       (\<lambda>(potential_chunk, r).
          ok (fst potential_chunk = chunk_x \<and> snd potential_chunk = chunk_z, r))"

section \<open>crossing_detector.py: CrossingDetector\<close>

text \<open>
  \<open>_is_duplicate_quad\<close> compares pieces by \<open>id\<close>, everything else by the fields. A piece
  handed to the detector is therefore a pair of its identity and its value.
\<close>

type_synonym piece_ref = "nat \<times> StructurePiece"

definition get_center :: "StructurePiece \<Rightarrow> int \<times> int \<times> int" where
  "get_center p =
     (let b = bounding_box p
      in ((min_x b + max_x b) div 2, (min_y b + max_y b) div 2, (min_z b + max_z b) div 2))"

record QuadCrossing =
  crossings :: "piece_ref list"
  center :: "int \<times> int \<times> int"
  quad_bounding_box :: BoundingBox

definition is_directly_adjacent_x :: "BoundingBox \<Rightarrow> BoundingBox \<Rightarrow> bool" where
  "is_directly_adjacent_x box1 box2 =
     (if min_z box1 \<noteq> min_z box2 \<or> max_z box1 \<noteq> max_z box2 then False
      else if min_y box1 \<noteq> min_y box2 \<or> max_y box1 \<noteq> max_y box2 then False
      else if min_x box2 = max_x box1 + 1 then True
      else if min_x box1 = max_x box2 + 1 then True
      else False)"

definition is_directly_adjacent_z :: "BoundingBox \<Rightarrow> BoundingBox \<Rightarrow> bool" where
  "is_directly_adjacent_z box1 box2 =
     (if min_x box1 \<noteq> min_x box2 \<or> max_x box1 \<noteq> max_x box2 then False
      else if min_y box1 \<noteq> min_y box2 \<or> max_y box1 \<noteq> max_y box2 then False
      else if min_z box2 = max_z box1 + 1 then True
      else if min_z box1 = max_z box2 + 1 then True
      else False)"

text \<open>
  The first loop of \<open>_find_quad_from_corner\<close>, over the pairs of a centre and a piece;
  the state is the pair of \<open>neighbors['right']\<close> and \<open>neighbors['down']\<close>.
\<close>

fun find_neighbors ::
  "piece_ref \<Rightarrow> ((int \<times> int \<times> int) \<times> piece_ref) list \<Rightarrow>
   piece_ref option \<times> piece_ref option \<Rightarrow> piece_ref option \<times> piece_ref option" where
  "find_neighbors corner [] nb = nb"
| "find_neighbors corner ((c, crossing) # rest) (right, down) =
     (if snd crossing = snd corner then find_neighbors corner rest (right, down)
      else
        (let corner_center = get_center (snd corner);
             corner_box = bounding_box (snd corner);
             dx = fst c - fst corner_center;
             dz = snd (snd c) - snd (snd corner_center);
             right' =
               (if dx > 0 \<and> is_directly_adjacent_x corner_box (bounding_box (snd crossing)) then
                  (case right of
                     None \<Rightarrow> Some crossing
                   | Some r \<Rightarrow>
                       if dx < fst (get_center (snd r)) - fst corner_center then Some crossing
                       else right)
                else right);
             down' =
               (if dz > 0 \<and> is_directly_adjacent_z corner_box (bounding_box (snd crossing)) then
                  (case down of
                     None \<Rightarrow> Some crossing
                   | Some d \<Rightarrow>
                       if dz < snd (snd (get_center (snd d))) - snd (snd corner_center)
                       then Some crossing
                       else down)
                else down)
         in find_neighbors corner rest (right', down')))"

text \<open>\<open>x in [a, b, c]\<close>: some element is \<open>x\<close> itself or equals it.\<close>

definition ref_in :: "piece_ref \<Rightarrow> piece_ref list \<Rightarrow> bool" where
  "ref_in x xs = list_ex (\<lambda>e. fst x = fst e \<or> snd x = snd e) xs"

text \<open>The second loop, which stops at the first piece that fits.\<close>

fun find_diagonal ::
  "piece_ref \<Rightarrow> piece_ref \<Rightarrow> piece_ref \<Rightarrow> ((int \<times> int \<times> int) \<times> piece_ref) list \<Rightarrow>
   piece_ref option" where
  "find_diagonal corner right down [] = None"
| "find_diagonal corner right down ((c, crossing) # rest) =
     (if ref_in crossing [corner, right, down] then find_diagonal corner right down rest
      else if is_directly_adjacent_z (bounding_box (snd right)) (bounding_box (snd crossing)) \<and>
              is_directly_adjacent_x (bounding_box (snd down)) (bounding_box (snd crossing))
      then Some crossing
      else find_diagonal corner right down rest)"

definition find_quad_from_corner ::
  "piece_ref \<Rightarrow> ((int \<times> int \<times> int) \<times> piece_ref) list \<Rightarrow> QuadCrossing option" where
  "find_quad_from_corner corner_crossing all_crossings =
     (case find_neighbors corner_crossing all_crossings (None, None) of
        (Some right, Some down) \<Rightarrow>
          (case find_diagonal corner_crossing right down all_crossings of
             Some diagonal \<Rightarrow>
               (let cs = [corner_crossing, right, down, diagonal];
                    boxes = map (\<lambda>c. bounding_box (snd c)) cs;
                    min_x' = Min (set (map min_x boxes));
                    min_y' = Min (set (map min_y boxes));
                    min_z' = Min (set (map min_z boxes));
                    max_x' = Max (set (map max_x boxes));
                    max_y' = Max (set (map max_y boxes));
                    max_z' = Max (set (map max_z boxes));
                    overall_box = \<lparr>min_x = min_x', min_y = min_y', min_z = min_z',
                                    max_x = max_x', max_y = max_y', max_z = max_z'\<rparr>
                in Some \<lparr>crossings = cs,
                         center = ((min_x' + max_x') div 2, (min_y' + max_y') div 2,
                                   (min_z' + max_z') div 2),
                         quad_bounding_box = overall_box\<rparr>)
           | None \<Rightarrow> None)
      | _ \<Rightarrow> None)"

definition is_duplicate_quad :: "QuadCrossing \<Rightarrow> QuadCrossing list \<Rightarrow> bool" where
  "is_duplicate_quad quad existing =
     list_ex (\<lambda>existing_quad.
        set (map fst (crossings existing_quad)) = set (map fst (crossings quad))) existing"

text \<open>The loop of \<open>find_quad_crossings\<close> over the corners, with the quads found so far.\<close>

fun collect_quads ::
  "((int \<times> int \<times> int) \<times> piece_ref) list \<Rightarrow> ((int \<times> int \<times> int) \<times> piece_ref) list \<Rightarrow>
   QuadCrossing list \<Rightarrow> QuadCrossing list" where
  "collect_quads [] crossing_centers quad_crossings = quad_crossings"
| "collect_quads ((center1, crossing1) # rest) crossing_centers quad_crossings =
     (case find_quad_from_corner crossing1 crossing_centers of
        Some quad \<Rightarrow>
          if \<not> is_duplicate_quad quad quad_crossings
          then collect_quads rest crossing_centers (quad_crossings @ [quad])
          else collect_quads rest crossing_centers quad_crossings
      | None \<Rightarrow> collect_quads rest crossing_centers quad_crossings)"

definition find_quad_crossings :: "piece_ref list \<Rightarrow> QuadCrossing list" where
  "find_quad_crossings cs =
     (if length cs < 4 then []
      else
        (let crossing_centers = map (\<lambda>crossing. (get_center (snd crossing), crossing)) cs
         in collect_quads crossing_centers crossing_centers []))"

section \<open>Definitions used to state the properties\<close>

text \<open>
  The acceptance test of the rejection loop as the specification words it: the sum
  \<open>bits - val + (bound - 1)\<close> evaluated in wrapping signed 32-bit arithmetic.
\<close>

definition spec_accepts :: "int \<Rightarrow> int \<Rightarrow> int \<Rightarrow> bool" where
  "spec_accepts bits val bound \<longleftrightarrow>
     0 \<le> sint (word_of_int bits - word_of_int val + (word_of_int bound - 1) :: 32 word)"

partial_function (option) spec_next_int_loop :: "int \<Rightarrow> rng \<Rightarrow> (int \<times> rng) option" where
  "spec_next_int_loop bound s =
     (case next_bits 31 s of (bits, s') \<Rightarrow>
        (let val = bits mod bound
         in if spec_accepts bits val bound then Some (val, s')
            else spec_next_int_loop bound s'))"

text \<open>The value that \<open>next_int\<close> returns for a positive bound (\<open>next_int_returns\<close> below).\<close>

definition next_int_value :: "int \<Rightarrow> rng \<Rightarrow> int" where
  "next_int_value bound s =
     (if (bound AND (bound - 1)) = 0 then drop_bit 31 (bound * fst (next_bits 31 s))
      else fst (next_bits 31 s) mod bound)"

text \<open>
  The entry that a drawn \<open>target\<close> selects: the first one at which the running
  difference \<open>target -= pw.weight\<close> is negative.
\<close>

fun drawn_entry :: "PieceWeight list \<Rightarrow> int \<Rightarrow> PieceWeight option" where
  "drawn_entry [] target = None"
| "drawn_entry (pw # rest) target =
     (if target - weight pw < 0 then Some pw else drawn_entry rest (target - weight pw))"

text \<open>The first test of \<open>_generate_and_add_piece\<close>: the request is too far from the anchor.\<close>

definition beyond_anchor :: "int \<Rightarrow> int \<Rightarrow> gstate \<Rightarrow> bool" where
  "beyond_anchor x z st =
     (case start_bounding_box st of
        Some anchor \<Rightarrow> \<bar>x - min_x anchor\<bar> > 112 \<or> \<bar>z - min_z anchor\<bar> > 112
      | None \<Rightarrow> False)"

text \<open>Two concrete inputs used below.\<close>

definition example_filler :: StructurePiece where
  "example_filler =
     \<lparr>piece_type = BRIDGE_END_FILLER,
      bounding_box = \<lparr>min_x = -1, min_y = 61, min_z = -7, max_x = 3, max_y = 70, max_z = 0\<rparr>,
      direction = NORTH, gen_depth = 31\<rparr>"

definition seeded_state :: "int \<Rightarrow> gstate" where
  "seeded_state seed = init_state\<lparr>random_src := set_seed seed\<rparr>"

text \<open>No two pieces of a list, at different positions, have boxes that intersect.\<close>

definition no_overlap :: "StructurePiece list \<Rightarrow> bool" where
  "no_overlap ps \<longleftrightarrow>
     (\<forall>i<length ps. \<forall>j<length ps.
        i \<noteq> j \<longrightarrow> \<not> intersects (bounding_box (ps ! i)) (bounding_box (ps ! j)))"

text \<open>
  The rank of a pending piece bounds the work it can still cause: a filler has no
  children, and any other piece at depth \<open>d\<close> has at most three, each a filler or a piece at
  depth \<open>d + 1 \<le> 30\<close>. The rank of a state is the sum over its pending children.
\<close>

definition piece_rank :: "StructurePiece \<Rightarrow> nat" where
  "piece_rank p =
     (if piece_type p = BRIDGE_END_FILLER then 1 else 4 * 4 ^ nat (30 - gen_depth p))"

definition pending_rank :: "gstate \<Rightarrow> nat" where
  "pending_rank st = sum_list (map piece_rank (pending_children st))"

text \<open>
  \<open>grows d k st st'\<close>: from \<open>st\<close> to \<open>st'\<close> at most \<open>k\<close> pieces were appended, the same ones
  to both lists, each at depth \<open>d + 1\<close> and, unless a filler, at depth at most 30; and the
  pieces still do not overlap if they did not before.
\<close>

definition grows :: "int \<Rightarrow> nat \<Rightarrow> gstate \<Rightarrow> gstate \<Rightarrow> bool" where
  "grows d k st st' \<longleftrightarrow>
     (\<exists>new. length new \<le> k
        \<and> pieces st' = pieces st @ new
        \<and> pending_children st' = pending_children st @ new
        \<and> (\<forall>p\<in>set new. gen_depth p = d + 1
              \<and> (piece_type p \<noteq> BRIDGE_END_FILLER \<longrightarrow> d + 1 \<le> 30))
        \<and> (no_overlap (pieces st) \<longrightarrow> no_overlap (pieces st')))"

text \<open>The bound on depths that the main loop maintains.\<close>

definition depth_ok :: "gstate \<Rightarrow> bool" where
  "depth_ok st \<longleftrightarrow>
     (\<forall>p\<in>set (pending_children st). piece_type p \<noteq> BRIDGE_END_FILLER \<longrightarrow> gen_depth p \<le> 30)
     \<and> (\<forall>p\<in>set (pieces st). gen_depth p \<le> 31)"

text \<open>The pieces that the run for world seed 522 at chunk \<open>(0, 0)\<close> returns.\<close>

definition run_522 :: "StructurePiece list" where
  "run_522 =
      [\<lparr>piece_type = START_PIECE,
        bounding_box = \<lparr>min_x = 2, min_y = 64, min_z = 2, max_x = 20, max_y = 73, max_z = 20\<rparr>,
        direction = SOUTH, gen_depth = 0\<rparr>,
       \<lparr>piece_type = MONSTER_THRONE,
        bounding_box = \<lparr>min_x = 8, min_y = 67, min_z = 21, max_x = 14, max_y = 74, max_z = 29\<rparr>,
        direction = SOUTH, gen_depth = 1\<rparr>,
       \<lparr>piece_type = BRIDGE_STRAIGHT,
        bounding_box = \<lparr>min_x = - 17, min_y = 64, min_z = 9, max_x = 1, max_y = 73, max_z = 13\<rparr>,
        direction = WEST, gen_depth = 1\<rparr>,
       \<lparr>piece_type = MONSTER_THRONE,
        bounding_box = \<lparr>min_x = 21, min_y = 67, min_z = 8, max_x = 29, max_y = 74, max_z = 14\<rparr>,
        direction = EAST, gen_depth = 1\<rparr>,
       \<lparr>piece_type = BRIDGE_STRAIGHT,
        bounding_box = \<lparr>min_x = - 36, min_y = 64, min_z = 9, max_x = - 18, max_y = 73, max_z = 13\<rparr>,
        direction = WEST, gen_depth = 2\<rparr>,
       \<lparr>piece_type = BRIDGE_STRAIGHT,
        bounding_box = \<lparr>min_x = - 55, min_y = 64, min_z = 9, max_x = - 37, max_y = 73, max_z = 13\<rparr>,
        direction = WEST, gen_depth = 3\<rparr>,
       \<lparr>piece_type = BRIDGE_STRAIGHT,
        bounding_box = \<lparr>min_x = - 74, min_y = 64, min_z = 9, max_x = - 56, max_y = 73, max_z = 13\<rparr>,
        direction = WEST, gen_depth = 4\<rparr>,
       \<lparr>piece_type = BRIDGE_STRAIGHT,
        bounding_box = \<lparr>min_x = - 93, min_y = 64, min_z = 9, max_x = - 75, max_y = 73, max_z = 13\<rparr>,
        direction = WEST, gen_depth = 5\<rparr>,
       \<lparr>piece_type = BRIDGE_STRAIGHT,
        bounding_box = \<lparr>min_x = - 112, min_y = 64, min_z = 9, max_x = - 94, max_y = 73, max_z = 13\<rparr>,
        direction = WEST, gen_depth = 6\<rparr>]"

text \<open>
  For the detector: a box that is 19 blocks wide on X and on Z (bounds are inclusive), and
  the places of the right and the lower neighbour of a corner whose box is so.
\<close>

definition wide_19 :: "piece_ref \<Rightarrow> bool" where
  "wide_19 c \<longleftrightarrow>
     max_x (bounding_box (snd c)) - min_x (bounding_box (snd c)) = 18
     \<and> max_z (bounding_box (snd c)) - min_z (bounding_box (snd c)) = 18"

definition right_of :: "piece_ref \<Rightarrow> piece_ref \<Rightarrow> bool" where
  "right_of corner r \<longleftrightarrow>
     min_x (bounding_box (snd r)) = min_x (bounding_box (snd corner)) + 19
     \<and> max_x (bounding_box (snd r)) = min_x (bounding_box (snd corner)) + 37
     \<and> min_z (bounding_box (snd r)) = min_z (bounding_box (snd corner))
     \<and> max_z (bounding_box (snd r)) = min_z (bounding_box (snd corner)) + 18"

definition below :: "piece_ref \<Rightarrow> piece_ref \<Rightarrow> bool" where
  "below corner d \<longleftrightarrow>
     min_z (bounding_box (snd d)) = min_z (bounding_box (snd corner)) + 19
     \<and> max_z (bounding_box (snd d)) = min_z (bounding_box (snd corner)) + 37
     \<and> min_x (bounding_box (snd d)) = min_x (bounding_box (snd corner))
     \<and> max_x (bounding_box (snd d)) = min_x (bounding_box (snd corner)) + 18"

text \<open>What C8 says of a cluster.\<close>

definition quad_ok :: "QuadCrossing \<Rightarrow> bool" where
  "quad_ok q \<longleftrightarrow>
     length (crossings q) = 4 \<and> distinct (map snd (crossings q))
     \<and> max_x (quad_bounding_box q) - min_x (quad_bounding_box q) = 37
     \<and> max_z (quad_bounding_box q) - min_z (quad_bounding_box q) = 37"

text \<open>Four crossings in a square, and the cluster they form.\<close>

definition example_crossing :: "int \<Rightarrow> int \<Rightarrow> StructurePiece" where
  "example_crossing x z =
     \<lparr>piece_type = BRIDGE_CROSSING,
      bounding_box = \<lparr>min_x = x, min_y = 64, min_z = z,
                       max_x = x + 18, max_y = 73, max_z = z + 18\<rparr>,
      direction = NORTH, gen_depth = 1\<rparr>"

definition four_crossings :: "piece_ref list" where
  "four_crossings =
     [(0, example_crossing 0 0), (1, example_crossing 19 0),
      (2, example_crossing 0 19), (3, example_crossing 19 19)]"

definition example_quad :: QuadCrossing where
  "example_quad =
     \<lparr>crossings = four_crossings, center = (18, 68, 18),
      quad_bounding_box = \<lparr>min_x = 0, min_y = 64, min_z = 0,
                            max_x = 37, max_y = 73, max_z = 37\<rparr>\<rparr>"

text \<open>
  The candidate chunk of a region as the specification words it. The seed is
  \<open>x * 341873128712 + z * 132897987541 + worldSeed + salt\<close> in wrapping signed 64-bit
  arithmetic, stored as \<open>(seed XOR 0x5DEECE66D) AND 0xFFFFFFFFFFFF\<close>; the two offsets are
  draws of \<open>nextInt(23)\<close>, with its rejection test in signed 32-bit arithmetic; the
  candidate is \<open>(rx * 27 + ox, rz * 27 + oz)\<close>. \<open>None\<close> is a rejection loop without end.
\<close>

definition spec_large_feature_with_salt :: "int \<Rightarrow> int \<Rightarrow> int \<Rightarrow> int \<Rightarrow> rng" where
  "spec_large_feature_with_salt world_seed x z salt =
     take_bit 48
       (sint (word_of_int x * 341873128712 + word_of_int z * 132897987541
              + word_of_int world_seed + word_of_int salt :: 64 word)
        XOR 25214903917)"

definition spec_candidate_chunk :: "int \<Rightarrow> int \<Rightarrow> int \<Rightarrow> (int \<times> int) option" where
  "spec_candidate_chunk world_seed rx rz =
     (case spec_next_int_loop 23 (spec_large_feature_with_salt world_seed rx rz 30084232) of
        None \<Rightarrow> None
      | Some (ox, r1) \<Rightarrow>
          (case spec_next_int_loop 23 r1 of
             None \<Rightarrow> None
           | Some (oz, r2) \<Rightarrow> Some (rx * 27 + ox, rz * 27 + oz)))"

declare next_int_loop.simps [code]
declare spec_next_int_loop.simps [code]
declare main_loop.simps [code]

section \<open>Properties of the random source\<close>

lemma and_mask_mod: "(x::int) AND (push_bit n 1 - 1) = x mod 2 ^ n"
  by (simp add: push_bit_eq_mult flip: mask_eq_exp_minus_1 take_bit_eq_mask take_bit_eq_mod)

lemma mod_shift_down:
  assumes "m \<le> a" "a < 2 * m"
  shows "(a::int) mod m = a - m"
proof -
  have "a mod m = (a - m + m) mod m" by simp
  also have "\<dots> = (a - m) mod m" by (simp only: mod_add_self2)
  also have "\<dots> = a - m" using assms by (intro mod_pos_pos_trivial) simp_all
  finally show ?thesis .
qed

lemma signed_of_residue:
  fixes r :: int
  assumes "0 \<le> r" "r < 2 * h" "0 < h"
  shows "(r + h) mod (2 * h) - h = (if r \<ge> h then r - 2 * h else r)"
proof (cases "r \<ge> h")
  case True
  then have "(r + h) mod (2 * h) = r + h - 2 * h"
    using assms by (intro mod_shift_down) simp_all
  then show ?thesis using True by simp
next
  case False
  then have "(r + h) mod (2 * h) = r + h"
    using assms by (intro mod_pos_pos_trivial) simp_all
  then show ?thesis using False by simp
qed

lemma to_signed_long_sint:
  "to_signed_long (x AND (push_bit 64 1 - 1)) = sint (word_of_int x :: 64 word)"
proof -
  define r where "r = x mod 2 ^ 64"
  have r: "0 \<le> r" "r < 2 * 2 ^ 63" by (simp_all add: r_def)
  have "sint (word_of_int x :: 64 word) = (x + 2 ^ 63) mod 2 ^ 64 - 2 ^ 63"
    by (simp add: int_word_sint)
  also have "(x + 2 ^ 63) mod 2 ^ 64 = (r + 2 ^ 63) mod (2 * 2 ^ 63)"
    unfolding r_def by (simp add: mod_add_left_eq)
  also have "\<dots> - 2 ^ 63 = (if r \<ge> 2 ^ 63 then r - 2 * 2 ^ 63 else r)"
    using r by (intro signed_of_residue) simp_all
  finally show ?thesis
    unfolding and_mask_mod to_signed_long_def r_def [symmetric] by (simp add: push_bit_eq_mult)
qed

lemma to_signed_int_sint:
  assumes r: "0 \<le> x" "x < 2 ^ 32"
  shows "to_signed_int x = sint (word_of_int x :: 32 word)"
proof -
  have "sint (word_of_int x :: 32 word) = (x + 2 ^ 31) mod 2 ^ 32 - 2 ^ 31"
    by (simp add: int_word_sint)
  also have "(x + 2 ^ 31) mod 2 ^ 32 = (x + 2 ^ 31) mod (2 * 2 ^ 31)"
    by simp
  also have "\<dots> - 2 ^ 31 = (if x \<ge> 2 ^ 31 then x - 2 * 2 ^ 31 else x)"
    using r by (intro signed_of_residue) simp_all
  finally show ?thesis
    unfolding to_signed_int_def by (simp add: push_bit_eq_mult)
qed

lemma next_bits_32_range: "0 \<le> fst (next_bits 32 s) \<and> fst (next_bits 32 s) < 2 ^ 32"
  by (simp add: next_bits_def Let_def MODULUS_MASK_def)

lemma next_bits_31_range: "0 \<le> fst (next_bits 31 s) \<and> fst (next_bits 31 s) < 2 ^ 31"
  by (simp add: next_bits_def Let_def MODULUS_MASK_def)

lemma shifted_high_word:
  "push_bit 32 (scast (word_of_int high :: 32 word) :: 64 word) = word_of_int (push_bit 32 high)"
proof -
  have "take_bit 64 (push_bit 32 (signed_take_bit 31 high)) = take_bit 64 (push_bit 32 high :: int)"
    by (simp add: take_bit_push_bit take_bit_signed_take_bit)
  then show ?thesis
    by (simp add: scast_eq sint_sbintrunc' push_bit_of_int word_of_int_eq_iff
        flip: push_bit_eq_mult)
qed

lemma next_long_as_words:
  "next_long s =
     (case next_bits 32 s of (high, s1) \<Rightarrow>
      case next_bits 32 s1 of (low, s2) \<Rightarrow>
        (sint (push_bit 32 (scast (word_of_int high :: 32 word) :: 64 word)
               + scast (word_of_int low :: 32 word)), s2))"
proof -
  obtain high s1 where h: "next_bits 32 s = (high, s1)" by (cases "next_bits 32 s")
  obtain low s2 where l: "next_bits 32 s1 = (low, s2)" by (cases "next_bits 32 s1")
  have lr: "0 \<le> low" "low < 2 ^ 32" using next_bits_32_range [of s1] l by simp_all
  have b: "(scast (word_of_int low :: 32 word) :: 64 word) = word_of_int (to_signed_int low)"
    unfolding to_signed_int_sint [OF lr] by (rule scast_eq)
  have c: "push_bit 32 (scast (word_of_int high :: 32 word) :: 64 word)
             + scast (word_of_int low :: 32 word)
           = word_of_int (push_bit 32 high + to_signed_int low)"
    unfolding shifted_high_word b by (simp only: of_int_add)
  show ?thesis
    unfolding next_long_def h l Let_def prod.case to_signed_long_sint c ..
qed

lemma next_long_not_zero_extended:
  "case next_bits 32 (set_seed 0) of (high, s1) \<Rightarrow>
   case next_bits 32 s1 of (low, s2) \<Rightarrow>
     fst (next_long (set_seed 0)) \<noteq>
       sint (push_bit 32 (scast (word_of_int high :: 32 word) :: 64 word)
             + ucast (word_of_int low :: 32 word))"
  by code_simp

text \<open>
  C4. For every state, \<open>next_long\<close> draws \<open>high = next(32)\<close>, then \<open>low = next(32)\<close>, and
  returns the signed value of the 64-bit word \<open>(high as signed 64) << 32\<close> plus \<open>low\<close>
  sign-extended from 32 to 64 bits, the sum wrapping at 64 bits. The result lies in the
  signed 64-bit range, and it is not the sum with \<open>low\<close> zero-extended: from the state
  \<open>set_seed 0\<close> the two differ.
\<close>

theorem next_long_sign_extends:
  "next_long s =
     (case next_bits 32 s of (high, s1) \<Rightarrow>
      case next_bits 32 s1 of (low, s2) \<Rightarrow>
        (sint (push_bit 32 (scast (word_of_int high :: 32 word) :: 64 word)
               + scast (word_of_int low :: 32 word)), s2))
   \<and> - (2 ^ 63) \<le> fst (next_long s) \<and> fst (next_long s) < 2 ^ 63
   \<and> (case next_bits 32 (set_seed 0) of (high, s1) \<Rightarrow>
       case next_bits 32 s1 of (low, s2) \<Rightarrow>
         fst (next_long (set_seed 0)) \<noteq>
           sint (push_bit 32 (scast (word_of_int high :: 32 word) :: 64 word)
                 + ucast (word_of_int low :: 32 word)))"
proof -
  have range: "- (2 ^ 63) \<le> fst (next_long s) \<and> fst (next_long s) < 2 ^ 63"
    unfolding next_long_as_words [of s]
    using sint_ge [where 'a = 64] sint_lt [where 'a = 64]
    by (simp add: split_beta)
  show ?thesis
    using next_long_as_words [of s] range next_long_not_zero_extended by blast
qed

lemma next_int_loop_accepts:
  assumes "0 < bound"
  shows "next_int_loop bound s = Some (fst (next_bits 31 s) mod bound, snd (next_bits 31 s))"
proof -
  obtain bits s' where nb: "next_bits 31 s = (bits, s')" by (cases "next_bits 31 s")
  have "0 \<le> bits" using next_bits_31_range [of s] nb by simp
  then have "bits mod bound \<le> bits" using assms by (simp add: zmod_le_nonneg_dividend)
  then have "0 \<le> bits - bits mod bound + (bound - 1)" using assms by simp
  then show ?thesis
    by (subst next_int_loop.simps) (simp add: nb Let_def)
qed

lemma next_int_returns:
  assumes "0 < bound"
  shows "next_int bound s = ok (next_int_value bound s, snd (next_bits 31 s))"
  using assms
  by (simp add: next_int_def next_int_value_def next_int_loop_accepts ok_def split: prod.split)

lemma next_int_value_range:
  assumes "0 < bound"
  shows "0 \<le> next_int_value bound s \<and> next_int_value bound s < bound"
proof -
  let ?b = "fst (next_bits 31 s)"
  have b: "0 \<le> ?b" "?b < 2 ^ 31" using next_bits_31_range [of s] by simp_all
  have "bound * ?b < bound * 2 ^ 31" using assms b by simp
  then have "bound * ?b div 2 ^ 31 < bound"
    by (simp add: div_less_iff_less_mult mult.commute)
  moreover have "0 \<le> bound * ?b div 2 ^ 31" using assms b by (simp add: pos_imp_zdiv_nonneg_iff)
  ultimately show ?thesis using assms b by (simp add: next_int_value_def drop_bit_eq_div)
qed

text \<open>
  C3. The state \<open>186667457325737\<close> is the one \<open>LegacyRandomSource(186643064605892)\<close> starts
  in. Its next 31-bit draw is \<open>2147483647\<close>, for which \<open>bits - val + (bound - 1)\<close> is
  \<open>2147483649\<close> at \<open>bound = 5\<close>: negative as a signed 32-bit sum, so that the loop of the
  specification draws again and returns \<open>4\<close>. \<open>next_int\<close> computes the sum on unbounded
  integers, accepts the draw and returns \<open>2\<close>.
\<close>

theorem next_int_accepts_overflowing_draw:
  "set_seed 186643064605892 = 186667457325737
   \<and> next_bits 31 186667457325737 = (2147483647, 281474976579584)
   \<and> \<not> spec_accepts 2147483647 (2147483647 mod 5) 5
   \<and> spec_next_int_loop 5 186667457325737 = Some (4, 72731834318859)
   \<and> next_int 5 186667457325737 = ok (2, 281474976579584)"
  by code_simp

section \<open>Properties of a spawn request\<close>

declare attempt_loop.simps [simp del]

lemma and_then_ok [simp]: "and_then (ok v) f = f v"
  by (simp add: and_then_def ok_def)

text \<open>
  C5. A request whose origin is more than 112 from the anchor's \<open>min_x\<close> or \<open>min_z\<close>
  returns no piece and leaves the whole state as it was: the two lists and the state of
  the random source included.
\<close>

theorem far_request_is_dropped:
  assumes "start_bounding_box st = Some anchor"
    and "\<bar>x - min_x anchor\<bar> > 112 \<or> \<bar>z - min_z anchor\<bar> > 112"
  shows "generate_and_add_piece x y z dir depth is_castle st = ok (None, st)"
  using assms by (simp add: generate_and_add_piece_def)

theorem far_request_is_dropped_witness:
  "generate_and_add_piece 200 64 0 NORTH 0 False
     (init_state\<lparr>start_bounding_box :=
        Some \<lparr>min_x = 2, min_y = 64, min_z = 2, max_x = 20, max_y = 73, max_z = 20\<rparr>\<rparr>)
   = ok (None, init_state\<lparr>start_bounding_box :=
        Some \<lparr>min_x = 2, min_y = 64, min_z = 2, max_x = 20, max_y = 73, max_z = 20\<rparr>\<rparr>)"
  by (rule far_request_is_dropped [where anchor = "\<lparr>min_x = 2, min_y = 64, min_z = 2, max_x = 20, max_y = 73, max_z = 20\<rparr>"]) simp_all

lemma generate_and_add_piece_unfold:
  "generate_and_add_piece x y z dir depth is_castle st =
     (if beyond_anchor x z st then ok (None, st)
      else and_then (generate_piece is_castle x y z dir (depth + 1) st) (\<lambda>(piece, st1).
             case piece of
               Some p \<Rightarrow>
                 ok (Some p, st1\<lparr>pieces := pieces st1 @ [p],
                                   pending_children := pending_children st1 @ [p]\<rparr>)
             | None \<Rightarrow> ok (None, st1)))"
  by (simp add: generate_and_add_piece_def beyond_anchor_def)

lemma add_children_filler:
  "piece_type p = BRIDGE_END_FILLER \<Longrightarrow> add_children p st = ok st"
  by (simp add: add_children_def)

lemma scan_weights_blocked:
  assumes "drawn_entry ws target = Some pw"
    and "\<not> do_place pw depth \<or> (Some pw = previous_piece st \<and> \<not> allow_in_row pw)
         \<or> create_piece (pw_piece_type pw) x y z dir depth st = None"
  shows "scan_weights seen ws target x y z dir depth st = None"
  using assms
proof (induction ws arbitrary: seen target)
  case Nil
  then show ?case by simp
next
  case (Cons a ws)
  show ?case
  proof (cases "target - weight a < 0")
    case True
    then have "a = pw" using Cons.prems(1) by simp
    then show ?thesis using True Cons.prems(2) by (auto simp: Let_def)
  next
    case False
    then have "drawn_entry ws (target - weight a) = Some pw" using Cons.prems(1) by simp
    then have "scan_weights (seen @ [a]) ws (target - weight a) x y z dir depth st = None"
      using Cons.prems(2) by (rule Cons.IH)
    then show ?thesis using False by (simp add: Let_def)
  qed
qed

lemma create_piece_random_src [simp]:
  "create_piece t x y z dir depth (st\<lparr>random_src := r\<rparr>) = create_piece t x y z dir depth st"
  by (simp add: create_piece_def find_collision_def Let_def split: option.splits prod.splits)

lemma attempt_loop_unfold:
  "attempt_loop is_castle total_weight can_place x y z dir depth attempts st =
     (if attempts < 5 \<and> can_place then
        (case next_int total_weight (random_src st) of
           None \<Rightarrow> None
         | Some (Inl e) \<Rightarrow> Some (Inl e)
         | Some (Inr (target, r)) \<Rightarrow>
             (let st1 = st\<lparr>random_src := r\<rparr>
              in case scan_weights [] (get_weights is_castle st1) target x y z dir depth st1 of
                   Some (piece, weights', pw') \<Rightarrow>
                     ok (Some piece,
                         set_weights is_castle weights' (st1\<lparr>previous_piece := Some pw'\<rparr>))
                 | None \<Rightarrow>
                     attempt_loop is_castle total_weight can_place x y z dir depth
                       (attempts + 1) st1))
      else ok (create_end_filler x y z dir depth st, st))"
  by (rule attempt_loop.simps)

text \<open>
  C1 (as amended). With a positive total weight and depth at most 30, when the entry drawn
  in an attempt is capped, or the creation of its piece is rejected, that attempt alone is
  abandoned: the loop goes on with the next attempt from the state after the one draw (so
  the first attempt of a request is followed by a second \<open>next_int(total)\<close>), and the
  filler fallback is reached only once five attempts have been made.
\<close>

theorem rejected_attempt_draws_again:
  assumes "0 < update_piece_weight (get_weights is_castle st)" and "depth \<le> 30"
    and "attempts < 5"
    and "drawn_entry (get_weights is_castle st)
           (next_int_value (update_piece_weight (get_weights is_castle st)) (random_src st))
         = Some pw"
    and "(place_count pw = max_place_count pw \<and> max_place_count pw > 0)
         \<or> create_piece (pw_piece_type pw) x y z dir depth st = None"
  shows "attempt_loop is_castle (update_piece_weight (get_weights is_castle st)) True
           x y z dir depth attempts st
         = attempt_loop is_castle (update_piece_weight (get_weights is_castle st)) True
             x y z dir depth (attempts + 1)
             (st\<lparr>random_src := snd (next_bits 31 (random_src st))\<rparr>)
       \<and> (attempts = 0 \<longrightarrow>
            generate_piece is_castle x y z dir depth st
            = attempt_loop is_castle (update_piece_weight (get_weights is_castle st)) True
                x y z dir depth 1 (st\<lparr>random_src := snd (next_bits 31 (random_src st))\<rparr>))
       \<and> (\<forall>st'. attempt_loop is_castle (update_piece_weight (get_weights is_castle st)) True
                    x y z dir depth 5 st'
                  = ok (create_end_filler x y z dir depth st', st'))"
proof -
  let ?tw = "update_piece_weight (get_weights is_castle st)"
  let ?st1 = "st\<lparr>random_src := snd (next_bits 31 (random_src st))\<rparr>"
  have w: "get_weights is_castle ?st1 = get_weights is_castle st"
    by (simp add: get_weights_def)
  have blocked: "\<not> do_place pw depth \<or> (Some pw = previous_piece ?st1 \<and> \<not> allow_in_row pw)
         \<or> create_piece (pw_piece_type pw) x y z dir depth ?st1 = None"
    using assms(5) by (auto simp: do_place_def)
  have scan: "scan_weights [] (get_weights is_castle ?st1) (next_int_value ?tw (random_src st))
                x y z dir depth ?st1 = None"
    unfolding w using assms(4) blocked by (rule scan_weights_blocked)
  have step: "attempt_loop is_castle ?tw True x y z dir depth attempts st
        = attempt_loop is_castle ?tw True x y z dir depth (attempts + 1) ?st1"
    by (subst attempt_loop_unfold)
      (simp add: assms(3) next_int_returns [OF assms(1)] ok_def Let_def scan [unfolded w] w
        )
  have first: "attempts = 0 \<longrightarrow> generate_piece is_castle x y z dir depth st
            = attempt_loop is_castle ?tw True x y z dir depth 1 ?st1"
    using step assms(1,2) by (auto simp add: generate_piece_def Let_def MAX_DEPTH_def)
  have last: "\<forall>st'. attempt_loop is_castle ?tw True x y z dir depth 5 st'
                  = ok (create_end_filler x y z dir depth st', st')"
    by (simp add: attempt_loop_unfold)
  show ?thesis using step first last by blast
qed

theorem rejected_attempt_draws_again_witness:
  "generate_piece False 0 13 0 NORTH 1 (seeded_state 7)
   = attempt_loop False (update_piece_weight (get_weights False (seeded_state 7))) True
       0 13 0 NORTH 1 1
       ((seeded_state 7)\<lparr>random_src := snd (next_bits 31 (random_src (seeded_state 7)))\<rparr>)"
proof -
  have h1: "0 < update_piece_weight (get_weights False (seeded_state 7))"
    by code_simp
  have h2: "(1::int) \<le> 30"
    by simp
  have h3: "(0::nat) < 5"
    by simp
  have h4: "drawn_entry (get_weights False (seeded_state 7))
              (next_int_value (update_piece_weight (get_weights False (seeded_state 7)))
                 (random_src (seeded_state 7)))
            = Some (mk_weight CASTLE_ENTRANCE 5 1 False)"
    by code_simp
  have h5: "(place_count (mk_weight CASTLE_ENTRANCE 5 1 False)
               = max_place_count (mk_weight CASTLE_ENTRANCE 5 1 False)
             \<and> max_place_count (mk_weight CASTLE_ENTRANCE 5 1 False) > 0)
            \<or> create_piece (pw_piece_type (mk_weight CASTLE_ENTRANCE 5 1 False))
                 0 13 0 NORTH 1 (seeded_state 7) = None"
    by code_simp
  show ?thesis
    using rejected_attempt_draws_again [OF h1 h2 h3 h4 h5] by simp
qed

text \<open>
  C1 as stated fails. From the state seeded with 7, a bridge request at \<open>(0, 13, 0)\<close>
  facing north at depth 1 first draws 66, the \<open>CastleEntrance\<close> entry, whose box has
  \<open>min_y = 10\<close> and is rejected. The generator then draws again (54, \<open>StairsRoom\<close>) and
  returns that piece, where the claim has it go to the filler after the first draw.
\<close>

theorem rejected_attempt_counterexample:
  "update_piece_weight (get_weights False (seeded_state 7)) = 70
   \<and> next_int 70 (random_src (seeded_state 7)) = ok (66, 205673494828845)
   \<and> drawn_entry (get_weights False (seeded_state 7)) 66
       = Some (mk_weight CASTLE_ENTRANCE 5 1 False)
   \<and> create_piece CASTLE_ENTRANCE 0 13 0 NORTH 1 (seeded_state 7) = None
   \<and> generate_piece False 0 13 0 NORTH 1 (seeded_state 7)
       = ok (Some \<lparr>piece_type = STAIRS_ROOM,
                    bounding_box = \<lparr>min_x = -2, min_y = 13, min_z = -6,
                                     max_x = 4, max_y = 23, max_z = 0\<rparr>,
                    direction = NORTH, gen_depth = 1\<rparr>,
             init_state\<lparr>random_src := 179732370459700,
               bridge_weights := (bridge_weights init_state)
                 [3 := (mk_weight STAIRS_ROOM 10 3 False)\<lparr>place_count := 1\<rparr>],
               previous_piece := Some ((mk_weight STAIRS_ROOM 10 3 False)\<lparr>place_count := 1\<rparr>)\<rparr>)
   \<and> generate_piece False 0 13 0 NORTH 1 (seeded_state 7)
       \<noteq> ok (create_end_filler 0 13 0 NORTH 1 ((seeded_state 7)\<lparr>random_src := 205673494828845\<rparr>),
             (seeded_state 7)\<lparr>random_src := 205673494828845\<rparr>)"
  by code_simp

section \<open>Properties of a generator run\<close>

lemma ok_eq_iff [simp]: "ok a = ok b \<longleftrightarrow> a = b"
  by (simp add: ok_def)

lemma intersects_commute: "intersects a b = intersects b a"
  by (auto simp: intersects_def)

lemma find_collision_in_iff:
  "find_collision_in ps box \<longleftrightarrow> (\<exists>q\<in>set ps. intersects (bounding_box q) box)"
  by (induction ps) auto

lemma no_overlap_snoc:
  assumes "no_overlap ps" and "\<not> find_collision_in ps (bounding_box p)"
  shows "no_overlap (ps @ [p])"
  unfolding no_overlap_def
proof (intro allI impI)
  fix i j
  assume i: "i < length (ps @ [p])" and j: "j < length (ps @ [p])" and ne: "i \<noteq> j"
  have free: "\<And>k. k < length ps \<Longrightarrow> \<not> intersects (bounding_box (ps ! k)) (bounding_box p)"
    using assms(2) by (auto simp: find_collision_in_iff)
  consider "i < length ps" "j < length ps" | "i < length ps" "j = length ps"
    | "i = length ps" "j < length ps"
    using i j ne by (auto simp: less_Suc_eq)
  then show "\<not> intersects (bounding_box ((ps @ [p]) ! i)) (bounding_box ((ps @ [p]) ! j))"
  proof cases
    case 1
    then show ?thesis using assms(1) ne by (simp add: no_overlap_def nth_append)
  next
    case 2
    then show ?thesis using free [of i] by (simp add: nth_append)
  next
    case 3
    then show ?thesis using free [of j] by (simp add: nth_append intersects_commute)
  qed
qed

lemma grows_same:
  assumes "pieces st' = pieces st" and "pending_children st' = pending_children st"
  shows "grows d k st st'"
  unfolding grows_def using assms by (intro exI [of _ "[]"]) simp

lemma grows_trans:
  assumes "grows d j st st1" and "grows d k st1 st2"
  shows "grows d (j + k) st st2"
proof -
  obtain new1 where n1: "length new1 \<le> j" "pieces st1 = pieces st @ new1"
    "pending_children st1 = pending_children st @ new1"
    "\<forall>p\<in>set new1. gen_depth p = d + 1 \<and> (piece_type p \<noteq> BRIDGE_END_FILLER \<longrightarrow> d + 1 \<le> 30)"
    "no_overlap (pieces st) \<longrightarrow> no_overlap (pieces st1)"
    using assms(1) unfolding grows_def by blast
  obtain new2 where n2: "length new2 \<le> k" "pieces st2 = pieces st1 @ new2"
    "pending_children st2 = pending_children st1 @ new2"
    "\<forall>p\<in>set new2. gen_depth p = d + 1 \<and> (piece_type p \<noteq> BRIDGE_END_FILLER \<longrightarrow> d + 1 \<le> 30)"
    "no_overlap (pieces st1) \<longrightarrow> no_overlap (pieces st2)"
    using assms(2) unfolding grows_def by blast
  show ?thesis
    unfolding grows_def using n1 n2 by (intro exI [of _ "new1 @ new2"]) auto
qed

lemma grows_mono: "grows d j st st' \<Longrightarrow> j \<le> k \<Longrightarrow> grows d k st st'"
  unfolding grows_def by (meson le_trans)

lemma create_piece_Some:
  assumes "create_piece t x y z dir depth st = Some p"
  shows "gen_depth p = depth \<and> \<not> find_collision_in (pieces st) (bounding_box p)"
  using assms
  by (auto simp: create_piece_def find_collision_def Let_def
      split: option.splits prod.splits if_splits)

lemma create_end_filler_Some:
  assumes "create_end_filler x y z dir depth st = Some p"
  shows "gen_depth p = depth \<and> \<not> find_collision_in (pieces st) (bounding_box p)
         \<and> piece_type p = BRIDGE_END_FILLER"
  using assms
  by (auto simp: create_end_filler_def find_collision_def Let_def split: if_splits)

lemma scan_weights_Some:
  assumes "scan_weights seen ws target x y z dir depth st = Some (p, ws', pw')"
  shows "\<exists>t. create_piece t x y z dir depth st = Some p"
  using assms
proof (induction ws arbitrary: seen target)
  case Nil
  then show ?case by simp
next
  case (Cons a ws)
  show ?case
  proof (cases "target - weight a < 0")
    case True
    then show ?thesis using Cons.prems
      by (auto simp: Let_def split: if_splits option.splits)
  next
    case False
    then show ?thesis using Cons.prems Cons.IH by (simp add: Let_def)
  qed
qed

lemma set_weights_lists [simp]:
  "pieces (set_weights c ws st) = pieces st"
  "pending_children (set_weights c ws st) = pending_children st"
  by (simp_all add: set_weights_def)

lemma create_end_filler_random_src [simp]:
  "create_end_filler x y z dir depth (st\<lparr>random_src := r\<rparr>) = create_end_filler x y z dir depth st"
  by (simp add: create_end_filler_def find_collision_def Let_def)

lemma attempt_loop_returns:
  assumes "can_place \<longrightarrow> 0 < total_weight \<and> depth \<le> 30"
  shows "\<exists>r st'. attempt_loop is_castle total_weight can_place x y z dir depth attempts st
                    = ok (r, st')
           \<and> pieces st' = pieces st \<and> pending_children st' = pending_children st
           \<and> (\<forall>p. r = Some p \<longrightarrow>
                 gen_depth p = depth
                 \<and> \<not> find_collision_in (pieces st) (bounding_box p)
                 \<and> (piece_type p \<noteq> BRIDGE_END_FILLER \<longrightarrow> depth \<le> 30))"
proof (induction "5 - attempts" arbitrary: attempts st)
  case 0
  then have stop: "\<not> (attempts < 5 \<and> can_place)" by simp
  show ?case
    by (subst attempt_loop_unfold) (auto simp: stop dest: create_end_filler_Some)
next
  case (Suc n)
  show ?case
  proof (cases "can_place")
    case False
    show ?thesis
      by (subst attempt_loop_unfold) (auto simp: False dest: create_end_filler_Some)
  next
    case True
    then have tw: "0 < total_weight" and dp: "depth \<le> 30" using assms by simp_all
    have lt: "attempts < 5" using Suc.hyps(2) by simp
    let ?t = "next_int_value total_weight (random_src st)"
    let ?st1 = "st\<lparr>random_src := snd (next_bits 31 (random_src st))\<rparr>"
    show ?thesis
    proof (cases "scan_weights [] (get_weights is_castle ?st1) ?t x y z dir depth ?st1")
      case None
      have "n = 5 - (attempts + 1)" using Suc.hyps(2) by simp
      from Suc.hyps(1) [OF this, of ?st1]
      obtain r st' where
        "attempt_loop is_castle total_weight can_place x y z dir depth (attempts + 1) ?st1
           = ok (r, st')"
        "pieces st' = pieces ?st1" "pending_children st' = pending_children ?st1"
        "\<forall>p. r = Some p \<longrightarrow> gen_depth p = depth
              \<and> \<not> find_collision_in (pieces ?st1) (bounding_box p)
              \<and> (piece_type p \<noteq> BRIDGE_END_FILLER \<longrightarrow> depth \<le> 30)"
        by blast
      then show ?thesis
        by (subst attempt_loop_unfold)
          (simp add: lt True next_int_returns [OF tw] ok_def [of "(?t, _)"] None Let_def)
    next
      case (Some res)
      obtain p ws' pw' where res: "res = (p, ws', pw')" by (cases res)
      from scan_weights_Some [OF Some [unfolded res]]
      obtain t where "create_piece t x y z dir depth ?st1 = Some p" by blast
      then have "gen_depth p = depth \<and> \<not> find_collision_in (pieces st) (bounding_box p)"
        using create_piece_Some [of t x y z dir depth ?st1 p] by simp
      then show ?thesis
        by (subst attempt_loop_unfold)
          (simp add: lt True next_int_returns [OF tw] ok_def [of "(?t, _)"] Some res Let_def dp)
    qed
  qed
qed

lemma generate_piece_returns:
  "\<exists>r st'. generate_piece is_castle x y z dir depth st = ok (r, st')
     \<and> pieces st' = pieces st \<and> pending_children st' = pending_children st
     \<and> (\<forall>p. r = Some p \<longrightarrow>
           gen_depth p = depth
           \<and> \<not> find_collision_in (pieces st) (bounding_box p)
           \<and> (piece_type p \<noteq> BRIDGE_END_FILLER \<longrightarrow> depth \<le> 30))"
  unfolding generate_piece_def Let_def
  by (rule attempt_loop_returns) (simp add: MAX_DEPTH_def)

lemma generate_and_add_piece_grows:
  "\<exists>r st'. generate_and_add_piece x y z dir depth is_castle st = ok (r, st')
     \<and> grows depth 1 st st'"
proof (cases "beyond_anchor x z st")
  case True
  then show ?thesis
    by (simp add: generate_and_add_piece_unfold grows_same)
next
  case False
  obtain r st1 where g: "generate_piece is_castle x y z dir (depth + 1) st = ok (r, st1)"
    and same: "pieces st1 = pieces st" "pending_children st1 = pending_children st"
    and new: "\<forall>p. r = Some p \<longrightarrow> gen_depth p = depth + 1
           \<and> \<not> find_collision_in (pieces st) (bounding_box p)
           \<and> (piece_type p \<noteq> BRIDGE_END_FILLER \<longrightarrow> depth + 1 \<le> 30)"
    using generate_piece_returns [of is_castle x y z dir "depth + 1" st] by blast
  show ?thesis
  proof (cases r)
    case None
    then show ?thesis
      using False g same by (simp add: generate_and_add_piece_unfold grows_same)
  next
    case (Some p)
    let ?st' = "st1\<lparr>pieces := pieces st1 @ [p], pending_children := pending_children st1 @ [p]\<rparr>"
    have "grows depth 1 st ?st'"
      unfolding grows_def using same new Some
      by (intro exI [of _ "[p]"]) (simp add: no_overlap_snoc)
    then show ?thesis
      using False g Some by (simp add: generate_and_add_piece_unfold)
  qed
qed

lemma then_grows:
  assumes "\<exists>st1. m = ok st1 \<and> grows d j st st1"
    and "\<And>st1. \<exists>st2. f st1 = ok st2 \<and> grows d k st1 st2"
  shows "\<exists>st2. and_then m f = ok st2 \<and> grows d (j + k) st st2"
proof -
  obtain st1 where 1: "m = ok st1" "grows d j st st1" using assms(1) by blast
  obtain st2 where 2: "f st1 = ok st2" "grows d k st1 st2" using assms(2) by blast
  show ?thesis using 1 2 by (auto intro: grows_trans)
qed

lemma drop_result_grows:
  "\<exists>st'. and_then (generate_and_add_piece x y z dir depth is_castle st) (\<lambda>(p, st'). ok st') = ok st'
     \<and> grows depth 1 st st'"
  using generate_and_add_piece_grows [of x y z dir depth is_castle st] by auto

lemma generate_child_forward_grows:
  "\<exists>st'. generate_child_forward piece i j is_castle st = ok st'
     \<and> grows (gen_depth piece) 1 st st'"
  unfolding generate_child_forward_def Let_def
  by (cases "direction piece") (simp_all add: drop_result_grows [unfolded One_nat_def])

lemma generate_child_left_grows:
  "\<exists>st'. generate_child_left piece i j is_castle st = ok st'
     \<and> grows (gen_depth piece) 1 st st'"
  unfolding generate_child_left_def Let_def
  by (cases "direction piece") (simp_all add: drop_result_grows [unfolded One_nat_def])

lemma generate_child_right_grows:
  "\<exists>st'. generate_child_right piece i j is_castle st = ok st'
     \<and> grows (gen_depth piece) 1 st st'"
  unfolding generate_child_right_def Let_def
  by (cases "direction piece") (simp_all add: drop_result_grows [unfolded One_nat_def])

lemma three_children_grow:
  assumes "\<And>s. \<exists>s'. f s = ok s' \<and> grows d 1 s s'"
    and "\<And>s. \<exists>s'. g s = ok s' \<and> grows d 1 s s'"
    and "\<And>s. \<exists>s'. h s = ok s' \<and> grows d 1 s s'"
  shows "\<exists>st'. and_then (f st) (\<lambda>st1. and_then (g st1) (\<lambda>st2. h st2)) = ok st'
           \<and> grows d 3 st st'"
proof -
  have inner: "\<And>st1. \<exists>st'. and_then (g st1) (\<lambda>st2. h st2) = ok st' \<and> grows d (1 + 1) st1 st'"
    by (rule then_grows) (rule assms)+
  have "\<exists>st'. and_then (f st) (\<lambda>st1. and_then (g st1) (\<lambda>st2. h st2)) = ok st'
           \<and> grows d (1 + (1 + 1)) st st'"
    by (rule then_grows) (rule assms inner)+
  then show ?thesis by (simp add: numeral_3_eq_3)
qed

lemma add_children_for_crossing_grows:
  "\<exists>st'. add_children_for_crossing piece st = ok st' \<and> grows (gen_depth piece) 3 st st'"
  unfolding add_children_for_crossing_def
  by (rule three_children_grow)
    (rule generate_child_forward_grows generate_child_left_grows generate_child_right_grows)+

lemma add_children_for_room_crossing_grows:
  "\<exists>st'. add_children_for_room_crossing piece st = ok st' \<and> grows (gen_depth piece) 3 st st'"
  unfolding add_children_for_room_crossing_def
  by (rule three_children_grow)
    (rule generate_child_forward_grows generate_child_left_grows generate_child_right_grows)+

lemma add_children_for_castle_small_corridor_crossing_grows:
  "\<exists>st'. add_children_for_castle_small_corridor_crossing piece st = ok st'
     \<and> grows (gen_depth piece) 3 st st'"
  unfolding add_children_for_castle_small_corridor_crossing_def
  by (rule three_children_grow)
    (rule generate_child_forward_grows generate_child_left_grows generate_child_right_grows)+

lemma one_child_grows:
  assumes "\<exists>s'. f = ok s' \<and> grows d 1 st s'"
  shows "\<exists>s'. f = ok s' \<and> grows d 3 st s'"
proof -
  obtain s' where s': "f = ok s'" "grows d 1 st s'" using assms by blast
  have "grows d 3 st s'" by (rule grows_mono [OF s'(2)]) simp
  then show ?thesis using s'(1) by blast
qed

lemma forward_child_grows:
  "\<exists>st'. generate_child_forward piece i j is_castle st = ok st'
     \<and> grows (gen_depth piece) 3 st st'"
  by (rule one_child_grows) (rule generate_child_forward_grows)

lemma left_child_grows:
  "\<exists>st'. generate_child_left piece i j is_castle st = ok st'
     \<and> grows (gen_depth piece) 3 st st'"
  by (rule one_child_grows) (rule generate_child_left_grows)

lemma right_child_grows:
  "\<exists>st'. generate_child_right piece i j is_castle st = ok st'
     \<and> grows (gen_depth piece) 3 st st'"
  by (rule one_child_grows) (rule generate_child_right_grows)

lemma add_children_for_castle_stalk_room_grows:
  "\<exists>st'. add_children_for_castle_stalk_room piece st = ok st' \<and> grows (gen_depth piece) 3 st st'"
proof -
  have "\<exists>st'. add_children_for_castle_stalk_room piece st = ok st'
          \<and> grows (gen_depth piece) (1 + 1) st st'"
    unfolding add_children_for_castle_stalk_room_def
    by (rule then_grows) (rule generate_child_forward_grows)+
  then obtain st' where st': "add_children_for_castle_stalk_room piece st = ok st'"
    "grows (gen_depth piece) (1 + 1) st st'" by blast
  have "grows (gen_depth piece) 3 st st'" by (rule grows_mono [OF st'(2)]) simp
  then show ?thesis using st'(1) by blast
qed

lemma add_children_for_castle_t_balcony_grows:
  "\<exists>st'. add_children_for_castle_t_balcony piece st = ok st' \<and> grows (gen_depth piece) 3 st st'"
proof -
  let ?d = "gen_depth piece"
  let ?i = "if direction piece = WEST \<or> direction piece = NORTH then 5 else 1 :: int"
  have draw: "\<And>s. next_int 8 (random_src s)
                 = ok (next_int_value 8 (random_src s), snd (next_bits 31 (random_src s)))"
    by (rule next_int_returns) simp
  obtain st1 where 1:
    "generate_child_left piece 0 ?i (next_int_value 8 (random_src st) > 0)
       (st\<lparr>random_src := snd (next_bits 31 (random_src st))\<rparr>) = ok st1"
    "grows ?d 1 (st\<lparr>random_src := snd (next_bits 31 (random_src st))\<rparr>) st1"
    using generate_child_left_grows by blast
  obtain st2 where 2:
    "generate_child_right piece 0 ?i (next_int_value 8 (random_src st1) > 0)
       (st1\<lparr>random_src := snd (next_bits 31 (random_src st1))\<rparr>) = ok st2"
    "grows ?d 1 (st1\<lparr>random_src := snd (next_bits 31 (random_src st1))\<rparr>) st2"
    using generate_child_right_grows by blast
  have a: "grows ?d 0 st (st\<lparr>random_src := snd (next_bits 31 (random_src st))\<rparr>)"
    by (rule grows_same) simp_all
  have b: "grows ?d 0 st1 (st1\<lparr>random_src := snd (next_bits 31 (random_src st1))\<rparr>)"
    by (rule grows_same) simp_all
  have "grows ?d (0 + 1 + (0 + 1)) st st2"
    by (rule grows_trans [OF grows_trans [OF a 1(2)] grows_trans [OF b 2(2)]])
  then have "grows ?d 3 st st2" by (rule grows_mono) simp
  moreover have "add_children_for_castle_t_balcony piece st = ok st2"
    unfolding add_children_for_castle_t_balcony_def Let_def
    by (simp add: draw 1 2)
  ultimately show ?thesis by blast
qed

lemma add_children_grows:
  "\<exists>st'. add_children piece st = ok st' \<and> grows (gen_depth piece) 3 st st'"
proof (cases "piece_type piece")
  case MONSTER_THRONE
  then show ?thesis by (simp add: add_children_def grows_same)
next
  case BRIDGE_END_FILLER
  then show ?thesis by (simp add: add_children_def grows_same)
next
  case CASTLE_CORRIDOR_T_BALCONY
  then show ?thesis by (simp add: add_children_def add_children_for_castle_t_balcony_grows)
next
  case CASTLE_STALK_ROOM
  then show ?thesis by (simp add: add_children_def add_children_for_castle_stalk_room_grows)
qed (simp_all add: add_children_def add_children_for_crossing_grows
      add_children_for_room_crossing_grows add_children_for_castle_small_corridor_crossing_grows
      add_children_for_bridge_straight_def add_children_for_stairs_room_def
      add_children_for_castle_entrance_def add_children_for_castle_small_corridor_def
      add_children_for_castle_right_turn_def add_children_for_castle_left_turn_def
      add_children_for_castle_corridor_stairs_def
      forward_child_grows left_child_grows right_child_grows)

lemma pop_at_in_range:
  assumes "0 \<le> i" and "i < int (length xs)"
  shows "pop_at xs i = ok (xs ! nat i, take (nat i) xs @ drop (Suc (nat i)) xs)"
  using assms by (simp add: pop_at_def Let_def)

lemma sum_list_without:
  fixes f :: "'a \<Rightarrow> nat"
  assumes "k < length xs"
  shows "sum_list (map f (take k xs @ drop (Suc k) xs)) + f (xs ! k) = sum_list (map f xs)"
proof -
  have "xs = take k xs @ xs ! k # drop (Suc k) xs"
    using assms by (rule id_take_nth_drop)
  then have "sum_list (map f xs) = sum_list (map f (take k xs @ xs ! k # drop (Suc k) xs))"
    by simp
  then show ?thesis by simp
qed

lemma sum_list_bounded:
  assumes "\<forall>x\<in>set xs. f x \<le> (b::nat)"
  shows "sum_list (map f xs) \<le> length xs * b"
  using assms by (induction xs) auto

lemma child_rank:
  assumes "piece_type p \<noteq> BRIDGE_END_FILLER"
    and "gen_depth c = gen_depth p + 1"
    and "piece_type c \<noteq> BRIDGE_END_FILLER \<longrightarrow> gen_depth p + 1 \<le> 30"
  shows "4 * piece_rank c \<le> piece_rank p"
proof (cases "piece_type c = BRIDGE_END_FILLER")
  case True
  then show ?thesis using assms(1) by (simp add: piece_rank_def)
next
  case False
  then have le: "gen_depth p + 1 \<le> 30" using assms(3) by simp
  have "nat (30 - gen_depth p) = Suc (nat (30 - gen_depth c))"
    using le assms(2) by simp
  then show ?thesis using False assms(1) by (simp add: piece_rank_def)
qed

lemma piece_rank_pos: "0 < piece_rank p"
  by (simp add: piece_rank_def)

lemma step_rank:
  assumes k: "k < length (pending_children st)"
    and rest: "pending_children st1
               = take k (pending_children st) @ drop (Suc k) (pending_children st)"
    and ret: "add_children (pending_children st ! k) st1 = ok st2"
    and gr: "grows (gen_depth (pending_children st ! k)) 3 st1 st2"
  shows "pending_rank st2 < pending_rank st"
proof -
  let ?p = "pending_children st ! k"
  have total: "pending_rank st1 + piece_rank ?p = pending_rank st"
    unfolding pending_rank_def rest using k by (rule sum_list_without)
  show ?thesis
  proof (cases "piece_type ?p = BRIDGE_END_FILLER")
    case True
    then have "st2 = st1" using ret by (simp add: add_children_filler)
    then show ?thesis using total piece_rank_pos [of ?p] by simp
  next
    case False
    obtain new where new: "length new \<le> 3"
      "pending_children st2 = pending_children st1 @ new"
      "\<forall>c\<in>set new. gen_depth c = gen_depth ?p + 1
          \<and> (piece_type c \<noteq> BRIDGE_END_FILLER \<longrightarrow> gen_depth ?p + 1 \<le> 30)"
      using gr unfolding grows_def by blast
    have "\<forall>c\<in>set new. piece_rank c \<le> piece_rank ?p div 4"
      using new(3) child_rank [OF False] by fastforce
    then have "sum_list (map piece_rank new) \<le> length new * (piece_rank ?p div 4)"
      by (rule sum_list_bounded)
    also have "\<dots> \<le> 3 * (piece_rank ?p div 4)"
      using new(1) by simp
    also have "\<dots> < piece_rank ?p"
      using piece_rank_pos [of ?p] by simp
    finally have "sum_list (map piece_rank new) < piece_rank ?p" .
    then show ?thesis
      using total by (simp add: pending_rank_def new(2))
  qed
qed

lemma step_depth_ok:
  assumes ok: "depth_ok st"
    and k: "k < length (pending_children st)"
    and rest: "pending_children st1
               = take k (pending_children st) @ drop (Suc k) (pending_children st)"
    and same: "pieces st1 = pieces st"
    and ret: "add_children (pending_children st ! k) st1 = ok st2"
    and gr: "grows (gen_depth (pending_children st ! k)) 3 st1 st2"
  shows "depth_ok st2"
proof -
  let ?p = "pending_children st ! k"
  have sub: "set (pending_children st1) \<subseteq> set (pending_children st)"
    unfolding rest by (auto dest: in_set_takeD in_set_dropD)
  have ok1: "depth_ok st1"
    using ok sub same unfolding depth_ok_def by auto
  show ?thesis
  proof (cases "piece_type ?p = BRIDGE_END_FILLER")
    case True
    then have "st2 = st1" using ret by (simp add: add_children_filler)
    then show ?thesis using ok1 by simp
  next
    case False
    have "?p \<in> set (pending_children st)" using k by simp
    then have dp: "gen_depth ?p \<le> 30" using ok False unfolding depth_ok_def by blast
    obtain new where new:
      "pieces st2 = pieces st1 @ new"
      "pending_children st2 = pending_children st1 @ new"
      "\<forall>c\<in>set new. gen_depth c = gen_depth ?p + 1
          \<and> (piece_type c \<noteq> BRIDGE_END_FILLER \<longrightarrow> gen_depth ?p + 1 \<le> 30)"
      using gr unfolding grows_def by blast
    show ?thesis
      unfolding depth_ok_def new(1,2) using ok1 new(3) dp
      by (auto simp: depth_ok_def)
  qed
qed

lemma main_loop_returns:
  "\<exists>st'. main_loop st = Some (Inr st') \<and> pending_children st' = []
     \<and> (\<exists>more. pieces st' = pieces st @ more)
     \<and> (no_overlap (pieces st) \<longrightarrow> no_overlap (pieces st'))
     \<and> (depth_ok st \<longrightarrow> depth_ok st')"
proof (induction "pending_rank st" arbitrary: st rule: less_induct)
  case less
  show ?case
  proof (cases "pending_children st = []")
    case True
    then show ?thesis by (subst main_loop.simps) simp
  next
    case False
    let ?n = "int (length (pending_children st))"
    let ?idx = "next_int_value ?n (random_src st)"
    let ?r = "snd (next_bits 31 (random_src st))"
    let ?k = "nat ?idx"
    let ?rest = "take ?k (pending_children st) @ drop (Suc ?k) (pending_children st)"
    let ?st1 = "st\<lparr>random_src := ?r, pending_children := ?rest\<rparr>"
    have n: "0 < ?n" using False by simp
    have idx: "0 \<le> ?idx" "?idx < ?n" using next_int_value_range [OF n] by simp_all
    then have k: "?k < length (pending_children st)" by simp
    have draw: "next_int ?n (random_src st) = Some (Inr (?idx, ?r))"
      using next_int_returns [OF n] by (simp add: ok_def)
    have pop: "pop_at (pending_children st) ?idx = Some (Inr (pending_children st ! ?k, ?rest))"
      using pop_at_in_range [OF idx] by (simp add: ok_def)
    obtain st2 where ret: "add_children (pending_children st ! ?k) ?st1 = ok st2"
      and gr: "grows (gen_depth (pending_children st ! ?k)) 3 ?st1 st2"
      using add_children_grows by blast
    have unfold: "main_loop st = main_loop st2"
      by (subst main_loop.simps) (simp add: False draw pop ret [unfolded ok_def])
    have "pending_rank st2 < pending_rank st"
      using k _ ret gr by (rule step_rank) simp
    from less [OF this] obtain st' more where st':
      "main_loop st2 = Some (Inr st')" "pending_children st' = []"
      "pieces st' = pieces st2 @ more"
      "no_overlap (pieces st2) \<longrightarrow> no_overlap (pieces st')"
      "depth_ok st2 \<longrightarrow> depth_ok st'"
      by blast
    obtain new where new: "pieces st2 = pieces st @ new"
      "no_overlap (pieces st) \<longrightarrow> no_overlap (pieces st2)"
      using gr unfolding grows_def by auto
    have d: "depth_ok st \<longrightarrow> depth_ok st2"
    proof
      assume "depth_ok st"
      then show "depth_ok st2" using k _ _ ret gr by (rule step_depth_ok) simp_all
    qed
    have 1: "main_loop st = Some (Inr st')" using unfold st'(1) by simp
    have 2: "\<exists>more. pieces st' = pieces st @ more" using st'(3) new(1) by simp
    have 3: "no_overlap (pieces st) \<longrightarrow> no_overlap (pieces st')" using new(2) st'(4) by blast
    have 4: "depth_ok st \<longrightarrow> depth_ok st'" using d st'(5) by blast
    show ?thesis
      using 1 st'(2) 2 3 4 by (intro exI [of _ st']) simp
  qed
qed

lemma Direction_of_in_range:
  assumes "0 \<le> n" and "n < 4"
  shows "\<exists>d. Direction_of n = ok d"
proof -
  have "n = 0 \<or> n = 1 \<or> n = 2 \<or> n = 3" using assms by arith
  then show ?thesis by (auto simp: Direction_of_def)
qed

lemma grows_depth_ok:
  assumes "depth_ok st" and "d \<le> 30" and "grows d k st st'"
  shows "depth_ok st'"
proof -
  obtain new where new:
    "pieces st' = pieces st @ new"
    "pending_children st' = pending_children st @ new"
    "\<forall>c\<in>set new. gen_depth c = d + 1 \<and> (piece_type c \<noteq> BRIDGE_END_FILLER \<longrightarrow> d + 1 \<le> 30)"
    using assms(3) unfolding grows_def by blast
  show ?thesis
    unfolding depth_ok_def new(1,2) using assms(1,2) new(3)
    by (auto simp: depth_ok_def)
qed

lemma no_overlap_single: "no_overlap [p]"
  by (simp add: no_overlap_def)

lemma generate_returns:
  "\<exists>ps. generate world_seed chunk_x chunk_z = ok ps \<and> no_overlap ps \<and> ps \<noteq> []
     \<and> piece_type (hd ps) = START_PIECE \<and> gen_depth (hd ps) = 0
     \<and> (\<forall>p\<in>set ps. gen_depth p \<le> 31)"
proof -
  let ?s0 = "set_large_feature_seed world_seed chunk_x chunk_z"
  let ?st0 = "init_state\<lparr>random_src := ?s0\<rparr>"
  let ?n = "next_int_value 4 ?s0"
  let ?r = "snd (next_bits 31 ?s0)"
  have draw: "get_random_horizontal_direction ?s0 = ok (?n, ?r)"
    unfolding get_random_horizontal_direction_def by (simp add: next_int_returns)
  have "0 \<le> ?n \<and> ?n < 4" by (rule next_int_value_range) simp
  then obtain d where d: "Direction_of ?n = ok d"
    using Direction_of_in_range by blast
  let ?box = "make_bounding_box (chunk_x * 16 + 2) MAGIC_START_Y (chunk_z * 16 + 2) d 19 10 19"
  let ?start = "\<lparr>piece_type = START_PIECE, bounding_box = ?box, direction = d, gen_depth = 0\<rparr>"
  let ?st1 = "?st0\<lparr>random_src := ?r, pieces := pieces ?st0 @ [?start],
                    start_bounding_box := Some ?box\<rparr>"
  have p1: "pieces ?st1 = [?start]" "pending_children ?st1 = []"
    by (simp_all add: init_state_def)
  obtain st2 where st2: "add_children_for_crossing ?start ?st1 = ok st2"
    and gr: "grows (gen_depth ?start) 3 ?st1 st2"
    using add_children_for_crossing_grows by blast
  obtain st3 more where st3: "main_loop st2 = Some (Inr st3)"
    "pieces st3 = pieces st2 @ more"
    "no_overlap (pieces st2) \<longrightarrow> no_overlap (pieces st3)"
    "depth_ok st2 \<longrightarrow> depth_ok st3"
    using main_loop_returns [of st2] by blast
  have gen: "generate world_seed chunk_x chunk_z = ok (pieces st3)"
    using draw d st2 st3(1) [folded ok_def]
    by (simp add: generate_def Let_def)
  obtain new where new: "pieces st2 = [?start] @ new"
    "no_overlap (pieces ?st1) \<longrightarrow> no_overlap (pieces st2)"
    using gr p1 unfolding grows_def by auto
  have "depth_ok ?st1" unfolding depth_ok_def p1 by simp
  then have "depth_ok st2" using _ gr by (rule grows_depth_ok) simp
  then have depth: "\<forall>p\<in>set (pieces st3). gen_depth p \<le> 31"
    using st3(4) by (simp add: depth_ok_def)
  have "no_overlap (pieces ?st1)" unfolding p1 by (rule no_overlap_single)
  then have disj: "no_overlap (pieces st3)" using new(2) st3(3) by blast
  have shape: "pieces st3 = ?start # (new @ more)" using st3(2) new(1) by simp
  show ?thesis
    using gen disj depth shape by (intro exI [of _ "pieces st3"]) simp
qed

lemma generate_522: "generate 522 0 0 = ok run_522"
  by code_simp

text \<open>
  C6. In the list that a run returns, the boxes of the pieces at two different positions
  do not intersect (\<open>intersects\<close> is the inclusive overlap on all three axes).
\<close>

theorem placed_boxes_do_not_intersect:
  assumes "generate world_seed chunk_x chunk_z = ok ps"
    and "i < length ps" and "j < length ps" and "i \<noteq> j"
  shows "\<not> intersects (bounding_box (ps ! i)) (bounding_box (ps ! j))"
proof -
  have "no_overlap ps" using generate_returns [of world_seed chunk_x chunk_z] assms(1) by auto
  then show ?thesis using assms(2-4) unfolding no_overlap_def by blast
qed

theorem placed_boxes_do_not_intersect_witness:
  "generate 522 0 0 = ok run_522 \<and> 0 < length run_522 \<and> 1 < length run_522 \<and> (0::nat) \<noteq> 1
   \<and> \<not> intersects (bounding_box (run_522 ! 0)) (bounding_box (run_522 ! 1))"
proof -
  have h2: "0 < length run_522" by (simp add: run_522_def)
  have h3: "1 < length run_522" by (simp add: run_522_def)
  have h4: "(0::nat) \<noteq> 1" by simp
  show ?thesis
    using placed_boxes_do_not_intersect [OF generate_522 h2 h3 h4] generate_522 h2 h3 by simp
qed

text \<open>
  C7. The list that a run returns starts with the start piece, at depth 0, and every
  other piece has depth at most 31.
\<close>

theorem placed_depth_at_most_31:
  assumes "generate world_seed chunk_x chunk_z = ok ps"
  shows "ps \<noteq> [] \<and> piece_type (ps ! 0) = START_PIECE \<and> gen_depth (ps ! 0) = 0
         \<and> (\<forall>i. 0 < i \<and> i < length ps \<longrightarrow> gen_depth (ps ! i) \<le> 31)"
proof -
  have *: "ps \<noteq> [] \<and> piece_type (hd ps) = START_PIECE \<and> gen_depth (hd ps) = 0
     \<and> (\<forall>p\<in>set ps. gen_depth p \<le> 31)"
    using generate_returns [of world_seed chunk_x chunk_z] assms by auto
  then have "hd ps = ps ! 0" by (simp add: hd_conv_nth)
  then show ?thesis using * by simp
qed

theorem placed_depth_at_most_31_witness:
  "generate 522 0 0 = ok run_522 \<and> run_522 \<noteq> [] \<and> piece_type (run_522 ! 0) = START_PIECE
   \<and> gen_depth (run_522 ! 0) = 0 \<and> (0::nat) < 8 \<and> 8 < length run_522
   \<and> gen_depth (run_522 ! 8) \<le> 31"
proof -
  have h: "(0::nat) < 8 \<and> 8 < length run_522" by (simp add: run_522_def)
  show ?thesis
    using placed_depth_at_most_31 [OF generate_522] generate_522 h by blast
qed

text \<open>
  C9. For every world seed and chunk, \<open>generate\<close> returns: the outcome is a list of
  pieces, not a run without end and not an exception. The main loop itself ends from any
  state, with no pending children left.
\<close>

theorem generate_terminates:
  "(\<exists>ps. generate world_seed chunk_x chunk_z = ok ps)
   \<and> (\<exists>st'. main_loop st = ok st' \<and> pending_children st' = [])"
  using generate_returns [of world_seed chunk_x chunk_z] main_loop_returns [of st]
  unfolding ok_def by blast

lemma main_loop_pops_filler:
  assumes k: "k < length (pending_children s)"
    and f: "piece_type (pending_children s ! k) = BRIDGE_END_FILLER"
    and idx: "next_int_value (int (length (pending_children s))) (random_src s) = int k"
  shows "next_int (int (length (pending_children s))) (random_src s)
           = ok (int k, snd (next_bits 31 (random_src s)))
         \<and> main_loop s
           = main_loop (s\<lparr>random_src := snd (next_bits 31 (random_src s)),
                          pending_children :=
                            take k (pending_children s) @ drop (Suc k) (pending_children s)\<rparr>)"
proof -
  let ?n = "int (length (pending_children s))"
  let ?r = "snd (next_bits 31 (random_src s))"
  let ?rest = "take k (pending_children s) @ drop (Suc k) (pending_children s)"
  have ne: "pending_children s \<noteq> []"
  proof
    assume "pending_children s = []"
    then show False using k by simp
  qed
  have n: "0 < ?n" using ne by simp
  have draw: "next_int ?n (random_src s) = ok (int k, ?r)"
    using next_int_returns [OF n, of "random_src s"] idx by simp
  have "pop_at (pending_children s) (int k) = ok (pending_children s ! nat (int k),
          take (nat (int k)) (pending_children s) @ drop (Suc (nat (int k))) (pending_children s))"
    using k by (intro pop_at_in_range) simp_all
  then have pop: "pop_at (pending_children s) (int k) = ok (pending_children s ! k, ?rest)"
    by simp
  have child: "add_children (pending_children s ! k)
                 (s\<lparr>random_src := ?r, pending_children := ?rest\<rparr>)
               = ok (s\<lparr>random_src := ?r, pending_children := ?rest\<rparr>)"
    using f by (rule add_children_filler)
  have "main_loop s = main_loop (s\<lparr>random_src := ?r, pending_children := ?rest\<rparr>)"
    by (subst main_loop.simps)
      (simp add: ne draw [unfolded ok_def] pop [unfolded ok_def] child [unfolded ok_def])
  then show ?thesis using draw by simp
qed

text \<open>
  C2 (as amended). When the filler fallback is reached and succeeds (the box of the
  \<open>BridgeEndFiller\<close> has \<open>min_y > 10\<close> and collides with no placed piece), the filler is
  appended to the pieces and to the pending children alike. The main loop ends only with
  no pending children left, and the iteration whose draw selects the filler spends that one
  \<open>next_int(len)\<close> draw, takes the filler off the pending children and changes nothing
  else: \<open>_add_children\<close> does nothing for a filler.
\<close>

theorem filler_is_enqueued:
  assumes "\<not> beyond_anchor x z st"
    and "generate_piece is_castle x y z dir (depth + 1) st
           = ok (create_end_filler x y z dir (depth + 1) st1, st1)"
    and "min_y (orient_box x y z (-1) (-3) 0 5 10 8 dir) > 10"
    and "\<not> find_collision (orient_box x y z (-1) (-3) 0 5 10 8 dir) st1"
  shows "\<exists>filler. piece_type filler = BRIDGE_END_FILLER
           \<and> create_end_filler x y z dir (depth + 1) st1 = Some filler
           \<and> generate_and_add_piece x y z dir depth is_castle st
               = ok (Some filler, st1\<lparr>pieces := pieces st1 @ [filler],
                                         pending_children := pending_children st1 @ [filler]\<rparr>)
           \<and> (\<forall>s. add_children filler s = ok s)
           \<and> (\<forall>s k. k < length (pending_children s) \<longrightarrow> pending_children s ! k = filler
                 \<longrightarrow> next_int_value (int (length (pending_children s))) (random_src s) = int k
                 \<longrightarrow> next_int (int (length (pending_children s))) (random_src s)
                       = ok (int k, snd (next_bits 31 (random_src s)))
                     \<and> main_loop s
                       = main_loop (s\<lparr>random_src := snd (next_bits 31 (random_src s)),
                            pending_children :=
                              take k (pending_children s) @ drop (Suc k) (pending_children s)\<rparr>))
           \<and> (\<forall>s. \<exists>s'. main_loop s = ok s' \<and> pending_children s' = [])"
proof -
  let ?f = "\<lparr>piece_type = BRIDGE_END_FILLER,
             bounding_box = orient_box x y z (-1) (-3) 0 5 10 8 dir,
             direction = dir, gen_depth = depth + 1\<rparr>"
  have f: "create_end_filler x y z dir (depth + 1) st1 = Some ?f"
    using assms(3,4) by (simp add: create_end_filler_def is_ok_box_def LOWEST_Y_POSITION_def)
  have add: "generate_and_add_piece x y z dir depth is_castle st
          = ok (Some ?f, st1\<lparr>pieces := pieces st1 @ [?f],
                               pending_children := pending_children st1 @ [?f]\<rparr>)"
    using assms(1) by (simp add: generate_and_add_piece_unfold assms(2) f)
  have none: "\<forall>s. add_children ?f s = ok s"
    by (simp add: add_children_filler)
  have pop: "\<forall>s k. k < length (pending_children s) \<longrightarrow> pending_children s ! k = ?f
                 \<longrightarrow> next_int_value (int (length (pending_children s))) (random_src s) = int k
                 \<longrightarrow> next_int (int (length (pending_children s))) (random_src s)
                       = ok (int k, snd (next_bits 31 (random_src s)))
                     \<and> main_loop s
                       = main_loop (s\<lparr>random_src := snd (next_bits 31 (random_src s)),
                            pending_children :=
                              take k (pending_children s) @ drop (Suc k) (pending_children s)\<rparr>)"
  proof (intro allI impI)
    fix s :: gstate and k
    assume k: "k < length (pending_children s)" and at: "pending_children s ! k = ?f"
      and idx: "next_int_value (int (length (pending_children s))) (random_src s) = int k"
    have "piece_type (pending_children s ! k) = BRIDGE_END_FILLER" using at by simp
    with k show "next_int (int (length (pending_children s))) (random_src s)
                   = ok (int k, snd (next_bits 31 (random_src s)))
                 \<and> main_loop s
                   = main_loop (s\<lparr>random_src := snd (next_bits 31 (random_src s)),
                        pending_children :=
                          take k (pending_children s) @ drop (Suc k) (pending_children s)\<rparr>)"
      using idx by (rule main_loop_pops_filler)
  qed
  have ends: "\<forall>s. \<exists>s'. main_loop s = ok s' \<and> pending_children s' = []"
    using main_loop_returns unfolding ok_def by blast
  show ?thesis
    using f add none pop ends by (intro exI [of _ ?f]) simp
qed

theorem filler_is_enqueued_witness:
  "generate_and_add_piece 0 64 0 NORTH 30 False init_state
     = ok (Some example_filler,
           init_state\<lparr>pieces := pieces init_state @ [example_filler],
                        pending_children := pending_children init_state @ [example_filler]\<rparr>)
   \<and> next_int (int (length (pending_children
          (init_state\<lparr>pieces := [example_filler], pending_children := [example_filler]\<rparr>))))
        (random_src (init_state\<lparr>pieces := [example_filler], pending_children := [example_filler]\<rparr>))
       = ok (int 0, snd (next_bits 31 (random_src
          (init_state\<lparr>pieces := [example_filler], pending_children := [example_filler]\<rparr>))))
   \<and> main_loop (init_state\<lparr>pieces := [example_filler], pending_children := [example_filler]\<rparr>)
       = main_loop ((init_state\<lparr>pieces := [example_filler], pending_children := [example_filler]\<rparr>)
           \<lparr>random_src := snd (next_bits 31 (random_src
              (init_state\<lparr>pieces := [example_filler], pending_children := [example_filler]\<rparr>))),
            pending_children :=
              take 0 (pending_children
                (init_state\<lparr>pieces := [example_filler], pending_children := [example_filler]\<rparr>))
              @ drop (Suc 0) (pending_children
                (init_state\<lparr>pieces := [example_filler], pending_children := [example_filler]\<rparr>))\<rparr>)"
proof -
  let ?S = "init_state\<lparr>pieces := [example_filler], pending_children := [example_filler]\<rparr>"
  have h1: "\<not> beyond_anchor 0 0 init_state"
    by code_simp
  have h2: "generate_piece False 0 64 0 NORTH (30 + 1) init_state
              = ok (create_end_filler 0 64 0 NORTH (30 + 1) init_state, init_state)"
    by code_simp
  have h3: "min_y (orient_box 0 64 0 (-1) (-3) 0 5 10 8 NORTH) > 10"
    by code_simp
  have h4: "\<not> find_collision (orient_box 0 64 0 (-1) (-3) 0 5 10 8 NORTH) init_state"
    by code_simp
  have ex: "create_end_filler 0 64 0 NORTH (30 + 1) init_state = Some example_filler"
    by code_simp
  have k: "0 < length (pending_children ?S)"
    by simp
  have at: "pending_children ?S ! 0 = example_filler"
    by simp
  have idx: "next_int_value (int (length (pending_children ?S))) (random_src ?S) = int 0"
    by code_simp
  from filler_is_enqueued [OF h1 h2 h3 h4] obtain filler where
    c: "create_end_filler 0 64 0 NORTH (30 + 1) init_state = Some filler"
    and a: "generate_and_add_piece 0 64 0 NORTH 30 False init_state
             = ok (Some filler, init_state\<lparr>pieces := pieces init_state @ [filler],
                     pending_children := pending_children init_state @ [filler]\<rparr>)"
    and p: "\<forall>s k. k < length (pending_children s) \<longrightarrow> pending_children s ! k = filler
                 \<longrightarrow> next_int_value (int (length (pending_children s))) (random_src s) = int k
                 \<longrightarrow> next_int (int (length (pending_children s))) (random_src s)
                       = ok (int k, snd (next_bits 31 (random_src s)))
                     \<and> main_loop s
                       = main_loop (s\<lparr>random_src := snd (next_bits 31 (random_src s)),
                            pending_children :=
                              take k (pending_children s) @ drop (Suc k) (pending_children s)\<rparr>)"
    by blast
  have eq: "filler = example_filler" using c ex by simp
  from p [unfolded eq, rule_format, OF k at idx] a [unfolded eq]
  show ?thesis by blast
qed

text \<open>
  C2 as stated fails: with no piece placed and a request at depth 30, the fallback yields
  \<open>example_filler\<close>, which ends up in the pending children, and the main loop pops it,
  spending a draw of the random source on it.
\<close>

theorem filler_not_enqueued_counterexample:
  "create_end_filler 0 64 0 NORTH 31 init_state = Some example_filler
   \<and> generate_and_add_piece 0 64 0 NORTH 30 False init_state
       = ok (Some example_filler,
             init_state\<lparr>pieces := [example_filler], pending_children := [example_filler]\<rparr>)
   \<and> pending_children
         (init_state\<lparr>pieces := [example_filler], pending_children := [example_filler]\<rparr>)
       \<noteq> pending_children init_state
   \<and> main_loop (init_state\<lparr>pieces := [example_filler], pending_children := [example_filler]\<rparr>)
       = Some (Inr (init_state\<lparr>random_src := snd (next_bits 31 (set_seed 0)),
                                  pieces := [example_filler]\<rparr>))
   \<and> snd (next_bits 31 (set_seed 0)) \<noteq> set_seed 0"
  by code_simp

section \<open>Properties of the quad-crossing detector\<close>

lemma adjacent_right:
  assumes "wide_19 corner" and "wide_19 c"
    and "fst (get_center (snd c)) - fst (get_center (snd corner)) > 0"
    and "is_directly_adjacent_x (bounding_box (snd corner)) (bounding_box (snd c))"
  shows "right_of corner c"
  using assms
  by (auto simp: wide_19_def right_of_def get_center_def Let_def is_directly_adjacent_x_def
      split: if_splits)

lemma adjacent_below:
  assumes "wide_19 corner" and "wide_19 c"
    and "snd (snd (get_center (snd c))) - snd (snd (get_center (snd corner))) > 0"
    and "is_directly_adjacent_z (bounding_box (snd corner)) (bounding_box (snd c))"
  shows "below corner c"
  using assms
  by (auto simp: wide_19_def below_def get_center_def Let_def is_directly_adjacent_z_def
      split: if_splits)

lemma find_neighbors_sound:
  assumes "find_neighbors corner xs (right, down) = (right', down')"
    and "wide_19 corner"
    and "\<forall>(c, x)\<in>set xs. c = get_center (snd x) \<and> wide_19 x"
    and "\<forall>r. right = Some r \<longrightarrow> right_of corner r"
    and "\<forall>d. down = Some d \<longrightarrow> below corner d"
  shows "(\<forall>r. right' = Some r \<longrightarrow> right_of corner r)
         \<and> (\<forall>d. down' = Some d \<longrightarrow> below corner d)"
  using assms
proof (induction xs arbitrary: right down)
  case Nil
  then show ?case by simp
next
  case (Cons a xs)
  obtain c x where a: "a = (c, x)" by (cases a)
  have cx: "c = get_center (snd x)" "wide_19 x" using Cons.prems(3) a by simp_all
  have rest: "\<forall>(c, x)\<in>set xs. c = get_center (snd x) \<and> wide_19 x" using Cons.prems(3) by simp
  show ?case
  proof (cases "snd x = snd corner")
    case True
    then have "find_neighbors corner xs (right, down) = (right', down')"
      using Cons.prems(1) a by simp
    then show ?thesis
      using Cons.prems(2) rest Cons.prems(4,5) by (rule Cons.IH)
  next
    case False
    let ?dx = "fst c - fst (get_center (snd corner))"
    let ?dz = "snd (snd c) - snd (snd (get_center (snd corner)))"
    let ?right = "(if ?dx > 0 \<and> is_directly_adjacent_x (bounding_box (snd corner)) (bounding_box (snd x)) then
                  (case right of
                     None \<Rightarrow> Some x
                   | Some r \<Rightarrow>
                       if ?dx < fst (get_center (snd r)) - fst (get_center (snd corner)) then Some x
                       else right)
                else right)"
    let ?down = "(if ?dz > 0 \<and> is_directly_adjacent_z (bounding_box (snd corner)) (bounding_box (snd x)) then
                  (case down of
                     None \<Rightarrow> Some x
                   | Some d \<Rightarrow>
                       if ?dz < snd (snd (get_center (snd d))) - snd (snd (get_center (snd corner)))
                       then Some x
                       else down)
                else down)"
    have step: "find_neighbors corner xs (?right, ?down) = (right', down')"
      using Cons.prems(1) a False by (simp add: Let_def)
    have r: "\<forall>r. ?right = Some r \<longrightarrow> right_of corner r"
      using Cons.prems(4) adjacent_right [OF Cons.prems(2) cx(2)] cx(1)
      by (auto split: option.splits if_splits)
    have d: "\<forall>d. ?down = Some d \<longrightarrow> below corner d"
      using Cons.prems(5) adjacent_below [OF Cons.prems(2) cx(2)] cx(1)
      by (auto split: option.splits if_splits)
    show ?thesis
      using step Cons.prems(2) rest r d by (rule Cons.IH)
  qed
qed

lemma find_diagonal_sound:
  assumes "find_diagonal corner right down xs = Some d"
  shows "is_directly_adjacent_z (bounding_box (snd right)) (bounding_box (snd d))
         \<and> is_directly_adjacent_x (bounding_box (snd down)) (bounding_box (snd d))"
  using assms
proof (induction xs)
  case Nil
  then show ?case by simp
next
  case (Cons a xs)
  obtain c x where a: "a = (c, x)" by (cases a)
  show ?case using Cons a by (auto split: if_splits)
qed

lemma diagonal_box:
  assumes "right_of corner r" and "below corner d"
    and "is_directly_adjacent_z (bounding_box (snd r)) (bounding_box (snd g))"
    and "is_directly_adjacent_x (bounding_box (snd d)) (bounding_box (snd g))"
  shows "min_x (bounding_box (snd g)) = min_x (bounding_box (snd corner)) + 19
       \<and> max_x (bounding_box (snd g)) = min_x (bounding_box (snd corner)) + 37
       \<and> min_z (bounding_box (snd g)) = min_z (bounding_box (snd corner)) + 19
       \<and> max_z (bounding_box (snd g)) = min_z (bounding_box (snd corner)) + 37"
  using assms
  by (auto simp: right_of_def below_def is_directly_adjacent_z_def is_directly_adjacent_x_def
      split: if_splits)

lemma min_of_four:
  "Min (set (map f [a, b, c, d])) = min (f a) (min (f b) (min (f c) (f d :: int)))"
  by simp

lemma max_of_four:
  "Max (set (map f [a, b, c, d])) = max (f a) (max (f b) (max (f c) (f d :: int)))"
  by simp

lemma find_quad_from_corner_Some:
  assumes "find_quad_from_corner corner xs = Some q"
  shows "\<exists>r d g. find_neighbors corner xs (None, None) = (Some r, Some d)
           \<and> find_diagonal corner r d xs = Some g
           \<and> crossings q = [corner, r, d, g]
           \<and> min_x (quad_bounding_box q)
               = Min (set (map min_x (map (\<lambda>c. bounding_box (snd c)) [corner, r, d, g])))
           \<and> max_x (quad_bounding_box q)
               = Max (set (map max_x (map (\<lambda>c. bounding_box (snd c)) [corner, r, d, g])))
           \<and> min_z (quad_bounding_box q)
               = Min (set (map min_z (map (\<lambda>c. bounding_box (snd c)) [corner, r, d, g])))
           \<and> max_z (quad_bounding_box q)
               = Max (set (map max_z (map (\<lambda>c. bounding_box (snd c)) [corner, r, d, g])))"
proof -
  obtain right' down' where nb: "find_neighbors corner xs (None, None) = (right', down')"
    by (cases "find_neighbors corner xs (None, None)")
  from assms obtain r where r: "right' = Some r"
    unfolding find_quad_from_corner_def nb by (cases right') simp_all
  from assms obtain d where d: "down' = Some d"
    unfolding find_quad_from_corner_def nb r by (cases down') simp_all
  from assms obtain g where g: "find_diagonal corner r d xs = Some g"
    unfolding find_quad_from_corner_def nb r d by (cases "find_diagonal corner r d xs") simp_all
  from assms have "Some q = find_quad_from_corner corner xs" by simp
  also have "\<dots> = Some \<lparr>crossings = [corner, r, d, g],
       center = ((Min (set (map min_x (map (\<lambda>c. bounding_box (snd c)) [corner, r, d, g])))
                  + Max (set (map max_x (map (\<lambda>c. bounding_box (snd c)) [corner, r, d, g])))) div 2,
                 (Min (set (map min_y (map (\<lambda>c. bounding_box (snd c)) [corner, r, d, g])))
                  + Max (set (map max_y (map (\<lambda>c. bounding_box (snd c)) [corner, r, d, g])))) div 2,
                 (Min (set (map min_z (map (\<lambda>c. bounding_box (snd c)) [corner, r, d, g])))
                  + Max (set (map max_z (map (\<lambda>c. bounding_box (snd c)) [corner, r, d, g])))) div 2),
       quad_bounding_box =
         \<lparr>min_x = Min (set (map min_x (map (\<lambda>c. bounding_box (snd c)) [corner, r, d, g]))),
          min_y = Min (set (map min_y (map (\<lambda>c. bounding_box (snd c)) [corner, r, d, g]))),
          min_z = Min (set (map min_z (map (\<lambda>c. bounding_box (snd c)) [corner, r, d, g]))),
          max_x = Max (set (map max_x (map (\<lambda>c. bounding_box (snd c)) [corner, r, d, g]))),
          max_y = Max (set (map max_y (map (\<lambda>c. bounding_box (snd c)) [corner, r, d, g]))),
          max_z = Max (set (map max_z (map (\<lambda>c. bounding_box (snd c)) [corner, r, d, g])))\<rparr>\<rparr>"
    unfolding find_quad_from_corner_def nb r d g Let_def prod.case option.case ..
  finally have q: "q = \<lparr>crossings = [corner, r, d, g],
       center = ((Min (set (map min_x (map (\<lambda>c. bounding_box (snd c)) [corner, r, d, g])))
                  + Max (set (map max_x (map (\<lambda>c. bounding_box (snd c)) [corner, r, d, g])))) div 2,
                 (Min (set (map min_y (map (\<lambda>c. bounding_box (snd c)) [corner, r, d, g])))
                  + Max (set (map max_y (map (\<lambda>c. bounding_box (snd c)) [corner, r, d, g])))) div 2,
                 (Min (set (map min_z (map (\<lambda>c. bounding_box (snd c)) [corner, r, d, g])))
                  + Max (set (map max_z (map (\<lambda>c. bounding_box (snd c)) [corner, r, d, g])))) div 2),
       quad_bounding_box =
         \<lparr>min_x = Min (set (map min_x (map (\<lambda>c. bounding_box (snd c)) [corner, r, d, g]))),
          min_y = Min (set (map min_y (map (\<lambda>c. bounding_box (snd c)) [corner, r, d, g]))),
          min_z = Min (set (map min_z (map (\<lambda>c. bounding_box (snd c)) [corner, r, d, g]))),
          max_x = Max (set (map max_x (map (\<lambda>c. bounding_box (snd c)) [corner, r, d, g]))),
          max_y = Max (set (map max_y (map (\<lambda>c. bounding_box (snd c)) [corner, r, d, g]))),
          max_z = Max (set (map max_z (map (\<lambda>c. bounding_box (snd c)) [corner, r, d, g])))\<rparr>\<rparr>"
    by (simp only: option.inject)
  show ?thesis
    apply (rule exI [of _ r], rule exI [of _ d], rule exI [of _ g], intro conjI)
          apply (simp only: nb r d)
         apply (rule g)
        apply (simp only: q QuadCrossing.simps)
       apply (simp only: q QuadCrossing.simps BoundingBox.simps)
      apply (simp only: q QuadCrossing.simps BoundingBox.simps)
     apply (simp only: q QuadCrossing.simps BoundingBox.simps)
    apply (simp only: q QuadCrossing.simps BoundingBox.simps)
    done
qed

lemma find_quad_from_corner_sound:
  assumes "find_quad_from_corner corner xs = Some q"
    and "wide_19 corner"
    and "\<forall>(c, x)\<in>set xs. c = get_center (snd x) \<and> wide_19 x"
  shows "quad_ok q"
proof -
  obtain r d g where nb: "find_neighbors corner xs (None, None) = (Some r, Some d)"
    and g: "find_diagonal corner r d xs = Some g"
    and cr: "crossings q = [corner, r, d, g]"
    and x0: "min_x (quad_bounding_box q)
               = Min (set (map min_x (map (\<lambda>c. bounding_box (snd c)) [corner, r, d, g])))"
    and x1: "max_x (quad_bounding_box q)
               = Max (set (map max_x (map (\<lambda>c. bounding_box (snd c)) [corner, r, d, g])))"
    and z0: "min_z (quad_bounding_box q)
               = Min (set (map min_z (map (\<lambda>c. bounding_box (snd c)) [corner, r, d, g])))"
    and z1: "max_z (quad_bounding_box q)
               = Max (set (map max_z (map (\<lambda>c. bounding_box (snd c)) [corner, r, d, g])))"
    using find_quad_from_corner_Some [OF assms(1)] by blast
  have "(\<forall>r'. Some r = Some r' \<longrightarrow> right_of corner r')
        \<and> (\<forall>d'. Some d = Some d' \<longrightarrow> below corner d')"
    using nb assms(2,3) by (rule find_neighbors_sound) simp_all
  then have r: "right_of corner r" and d: "below corner d" by simp_all
  have gb: "min_x (bounding_box (snd g)) = min_x (bounding_box (snd corner)) + 19
       \<and> max_x (bounding_box (snd g)) = min_x (bounding_box (snd corner)) + 37
       \<and> min_z (bounding_box (snd g)) = min_z (bounding_box (snd corner)) + 19
       \<and> max_z (bounding_box (snd g)) = min_z (bounding_box (snd corner)) + 37"
    using find_diagonal_sound [OF g] diagonal_box [OF r d] by blast
  have cw: "max_x (bounding_box (snd corner)) = min_x (bounding_box (snd corner)) + 18"
    "max_z (bounding_box (snd corner)) = min_z (bounding_box (snd corner)) + 18"
    using assms(2) by (simp_all add: wide_19_def)
  have dist: "distinct (map snd [corner, r, d, g])"
  proof -
    have "min_x (bounding_box (snd corner)) \<noteq> min_x (bounding_box (snd r))"
      "min_z (bounding_box (snd corner)) \<noteq> min_z (bounding_box (snd d))"
      "min_x (bounding_box (snd corner)) \<noteq> min_x (bounding_box (snd g))"
      "min_x (bounding_box (snd r)) \<noteq> min_x (bounding_box (snd d))"
      "min_z (bounding_box (snd r)) \<noteq> min_z (bounding_box (snd g))"
      "min_x (bounding_box (snd d)) \<noteq> min_x (bounding_box (snd g))"
      using r d gb by (simp_all add: right_of_def below_def)
    then have "snd corner \<noteq> snd r" "snd corner \<noteq> snd d" "snd corner \<noteq> snd g"
      "snd r \<noteq> snd d" "snd r \<noteq> snd g" "snd d \<noteq> snd g"
      by metis+
    then show ?thesis by simp
  qed
  have xs: "max_x (quad_bounding_box q) - min_x (quad_bounding_box q) = 37"
    unfolding x0 x1 map_map min_of_four max_of_four
    using r d gb cw by (simp add: right_of_def below_def)
  have zs: "max_z (quad_bounding_box q) - min_z (quad_bounding_box q) = 37"
    unfolding z0 z1 map_map min_of_four max_of_four
    using r d gb cw by (simp add: right_of_def below_def)
  show ?thesis
    unfolding quad_ok_def cr using dist xs zs by simp
qed

lemma collect_quads_sound:
  assumes "\<forall>q\<in>set acc. quad_ok q"
    and "\<forall>(c, x)\<in>set ys. wide_19 x"
    and "\<forall>(c, x)\<in>set xs. c = get_center (snd x) \<and> wide_19 x"
  shows "\<forall>q\<in>set (collect_quads ys xs acc). quad_ok q"
  using assms
proof (induction ys arbitrary: acc)
  case Nil
  then show ?case by simp
next
  case (Cons a ys)
  obtain c x where a: "a = (c, x)" by (cases a)
  have w: "wide_19 x" and rest: "\<forall>(c, x)\<in>set ys. wide_19 x" using Cons.prems(2) a by simp_all
  show ?case
  proof (cases "find_quad_from_corner x xs")
    case None
    then show ?thesis using Cons.IH [OF Cons.prems(1) rest Cons.prems(3)] a by simp
  next
    case (Some q)
    have "quad_ok q" using Some w Cons.prems(3) by (rule find_quad_from_corner_sound)
    then have "\<forall>q\<in>set (acc @ [q]). quad_ok q" using Cons.prems(1) by simp
    from Cons.IH [OF this rest Cons.prems(3)] Cons.IH [OF Cons.prems(1) rest Cons.prems(3)]
    show ?thesis using a Some by simp
  qed
qed

lemma find_quad_crossings_sound:
  assumes "\<forall>c\<in>set cs. wide_19 c"
  shows "\<forall>q\<in>set (find_quad_crossings cs). quad_ok q"
proof (cases "length cs < 4")
  case True
  then show ?thesis by (simp add: find_quad_crossings_def)
next
  case False
  let ?all = "map (\<lambda>crossing. (get_center (snd crossing), crossing)) cs"
  have 1: "\<forall>(c, x)\<in>set ?all. c = get_center (snd x) \<and> wide_19 x" using assms by auto
  then have 2: "\<forall>(c, x)\<in>set ?all. wide_19 x" by auto
  have "\<forall>q\<in>set (collect_quads ?all ?all []). quad_ok q"
    by (rule collect_quads_sound [OF _ 2 1]) simp
  then show ?thesis using False by (simp add: find_quad_crossings_def Let_def)
qed

text \<open>
  C8. When every box given to the detector is 19 blocks wide on X and on Z (\<open>max - min = 18\<close>,
  the bounds being inclusive), every cluster it returns has exactly four members, no two of
  them equal, and a combined box with \<open>max_x - min_x = 37\<close> and \<open>max_z - min_z = 37\<close>.
\<close>

theorem quad_clusters_are_four_abutting_crossings:
  assumes "\<forall>c\<in>set cs.
             max_x (bounding_box (snd c)) - min_x (bounding_box (snd c)) = 18
             \<and> max_z (bounding_box (snd c)) - min_z (bounding_box (snd c)) = 18"
    and "q \<in> set (find_quad_crossings cs)"
  shows "length (crossings q) = 4 \<and> distinct (map snd (crossings q)) \<and> distinct (crossings q)
         \<and> max_x (quad_bounding_box q) - min_x (quad_bounding_box q) = 37
         \<and> max_z (quad_bounding_box q) - min_z (quad_bounding_box q) = 37"
proof -
  have "\<forall>c\<in>set cs. wide_19 c" using assms(1) by (simp add: wide_19_def)
  then have "quad_ok q" using find_quad_crossings_sound assms(2) by blast
  then show ?thesis by (auto simp: quad_ok_def dest: distinct_map [THEN iffD1])
qed

lemma find_quad_crossings_example: "find_quad_crossings four_crossings = [example_quad]"
  by code_simp

theorem quad_clusters_are_four_abutting_crossings_witness:
  "example_quad \<in> set (find_quad_crossings four_crossings)
   \<and> length (crossings example_quad) = 4 \<and> distinct (map snd (crossings example_quad))
   \<and> distinct (crossings example_quad)
   \<and> max_x (quad_bounding_box example_quad) - min_x (quad_bounding_box example_quad) = 37
   \<and> max_z (quad_bounding_box example_quad) - min_z (quad_bounding_box example_quad) = 37"
proof -
  have h1: "\<forall>c\<in>set four_crossings.
             max_x (bounding_box (snd c)) - min_x (bounding_box (snd c)) = 18
             \<and> max_z (bounding_box (snd c)) - min_z (bounding_box (snd c)) = 18"
    by (simp add: four_crossings_def example_crossing_def)
  have h2: "example_quad \<in> set (find_quad_crossings four_crossings)"
    by (simp add: find_quad_crossings_example)
  show ?thesis
    using quad_clusters_are_four_abutting_crossings [OF h1 h2] h2 by blast
qed

section \<open>Properties of the locator\<close>

text \<open>
  C10. \<open>is_fortress_chunk\<close> compares the chunk with the candidate that the locator
  computes, and never consults the classifier: at world seed 1 it returns \<open>True\<close> for
  the chunk \<open>(12, 0)\<close>, which \<open>_is_fortress_at_chunk\<close> labels a Bastion. The candidate
  it computes is not always the candidate of the region, though. At world seed
  \<open>162683495087555\<close> the first 31-bit draw for region \<open>(0, 0)\<close> is \<open>2147483647\<close>,
  which the signed 32-bit test of \<open>nextInt(23)\<close> rejects: the candidate of the region is
  \<open>(13, 15)\<close>. \<open>next_int\<close> accepts that draw, so that \<open>is_fortress_chunk\<close> returns
  \<open>True\<close> for the chunk \<open>(5, 13)\<close> and \<open>False\<close> for the chunk \<open>(13, 15)\<close>.
\<close>

theorem is_fortress_chunk_off_candidate:
  "spec_candidate_chunk 162683495087555 (5 div 27) (13 div 27) = Some (13, 15)
   \<and> spec_candidate_chunk 162683495087555 (13 div 27) (15 div 27) = Some (13, 15)
   \<and> is_fortress_chunk 162683495087555 5 13 = ok (True, 102534846463568)
   \<and> is_fortress_chunk 162683495087555 13 15 = ok (False, 102534846463568)
   \<and> set_large_feature_with_salt 162683495087555 0 0 SALT
       = spec_large_feature_with_salt 162683495087555 0 0 30084232
   \<and> next_bits 31 (set_large_feature_with_salt 162683495087555 0 0 SALT)
       = (2147483647, 281474976591929)
   \<and> \<not> spec_accepts 2147483647 (2147483647 mod 23) 23
   \<and> is_fortress_chunk 1 12 0 = ok (True, 252892241602110)
   \<and> is_fortress_at_chunk 1 12 0 = ok False"
  by code_simp

end
